theory Spec2Isabelle
  imports Complex_Main "HOL-Library.AList"
begin

section \<open>Numbers\<close>

text \<open>
  The numbers of the source are IEEE doubles. \<open>roundDouble\<close> is the rounding every
  arithmetic operation ends with: to the nearest double, ties to the even significand. A
  positive value is scaled by powers of two until its significand lies between \<open>2^52\<close> and
  \<open>2^53\<close>, at most 1074 times (below that the doubles are subnormal and the scale stays),
  and the significand is rounded to an integer. Values beyond the largest double are
  rounded in the same way and not turned into \<open>Infinity\<close>; no number of the viewer gets
  there.
\<close>

definition roundEven :: "rat \<Rightarrow> int" where
  "roundEven m =
     (let f = \<lfloor>m\<rfloor>; r = m - of_int f
      in if r < 1 / 2 then f else if 1 / 2 < r then f + 1 else if even f then f else f + 1)"

fun doubleScale :: "nat \<Rightarrow> rat \<Rightarrow> rat \<Rightarrow> rat \<times> rat" where
  "doubleScale 0 m u = (m, u)"
| "doubleScale (Suc n) m u =
     (if m < 2 ^ 52 then doubleScale n (2 * m) (u / 2)
      else if 2 ^ 53 \<le> m then doubleScale n (m / 2) (2 * u)
      else (m, u))"

definition roundDouble :: "rat \<Rightarrow> rat" where
  "roundDouble x =
     (if x = 0 then 0
      else (case doubleScale 1074 \<bar>x\<bar> 1 of
              (m, u) \<Rightarrow> sgn x * of_int (roundEven m) * u))"

definition js_rem :: "rat \<Rightarrow> rat \<Rightarrow> rat" where
  \<comment> \<open>The remainder operator \<open>%\<close>: the sign of the dividend. The remainder of two doubles is
      a double, so no rounding follows.\<close>
  "js_rem x y =
     x - y * of_int (if x / y \<ge> 0 then \<lfloor>x / y\<rfloor> else \<lceil>x / y\<rceil>)"


section \<open>File names: series detection and frame numbers\<close>

text \<open>
  A file name is a string of code units below 256. The regular expressions of the source
  only mention ASCII letters, digits, the underscore and white space, and the flag \<open>i\<close>
  folds ASCII case (a code unit from 128 on never folds to an ASCII letter); of the white
  space beyond ASCII the no-break space 160 is in that range. A name is assumed to hold no
  line terminator (the \<open>.\<close> of the frame-number pattern does not cross one).
\<close>

definition is_digit :: "char \<Rightarrow> bool" where
  "is_digit c = (let n = (of_char c :: nat) in 48 \<le> n \<and> n \<le> 57)"

definition is_space_or_underscore :: "char \<Rightarrow> bool" where
  \<comment> \<open>The class \<open>[_\s]\<close>: underscore, space, tab, line feed, vertical tab, form feed,
      carriage return, no-break space.\<close>
  "is_space_or_underscore c =
     (let n = (of_char c :: nat) in n = 95 \<or> n = 32 \<or> (9 \<le> n \<and> n \<le> 13) \<or> n = 160)"

definition upper_char :: "char \<Rightarrow> char" where
  "upper_char c = (let n = (of_char c :: nat) in if 97 \<le> n \<and> n \<le> 122 then char_of (n - 32) else c)"

definition parseInt :: "string \<Rightarrow> int" where
  \<comment> \<open>\<open>parseInt\<close> on a non-empty run of decimal digits: the double nearest to the number
      they write (an integer). Beyond 20 significant digits an engine may round the digits
      first; that is not modelled.\<close>
  "parseInt ds =
     \<lfloor>roundDouble (of_int (foldl (\<lambda>a c. 10 * a + (int (of_char c) - 48)) 0 ds))\<rfloor>"

fun prefix_ci :: "string \<Rightarrow> string \<Rightarrow> bool" where
  "prefix_ci [] s = True"
| "prefix_ci (p # ps) [] = False"
| "prefix_ci (p # ps) (c # cs) = (upper_char p = upper_char c \<and> prefix_ci ps cs)"

fun contains_ci :: "string \<Rightarrow> string \<Rightarrow> bool" where
  "contains_ci p [] = prefix_ci p []"
| "contains_ci p (c # cs) = (prefix_ci p (c # cs) \<or> contains_ci p cs)"

definition seriesDigitsAt :: "string \<Rightarrow> string option" where
  \<comment> \<open>A match of \<open>(SER|Seq|Series)[_\s]*(\d+)\<close> anchored at the head of the text: its group 2.\<close>
  "seriesDigitsAt s =
     (let after = (\<lambda>k. takeWhile is_digit (dropWhile is_space_or_underscore (drop (length k) s)))
      in if prefix_ci ''SER'' s \<and> after ''SER'' \<noteq> [] then Some (after ''SER'')
         else if prefix_ci ''Seq'' s \<and> after ''Seq'' \<noteq> [] then Some (after ''Seq'')
         else if prefix_ci ''Series'' s \<and> after ''Series'' \<noteq> [] then Some (after ''Series'')
         else None)"

fun seriesDigits :: "string \<Rightarrow> string option" where
  \<comment> \<open>The leftmost match of the pattern in the text.\<close>
  "seriesDigits [] = None"
| "seriesDigits (c # cs) =
     (case seriesDigitsAt (c # cs) of Some d \<Rightarrow> Some d | None \<Rightarrow> seriesDigits cs)"

text \<open>
  The series names are the keys of every table of the viewer. The source writes them as
  display strings; here each is a constructor:
  \<open>T1WI\<close> is "T1... (T1WI)", \<open>T2WI\<close> is "T2... (T2WI)", \<open>FLAIR\<close>, \<open>DWI\<close>, \<open>SWI\<close>, \<open>ADC\<close>
  the four fixed labels, \<open>SeriesN n\<close> the label built from the number \<open>n\<close>, and
  \<open>UnknownSeries\<close> the label of a name no pattern matches.
\<close>

datatype series_name = T1WI | T2WI | FLAIR | DWI | SWI | ADC | SeriesN int | UnknownSeries

definition detectSeriesFromFileName :: "string \<Rightarrow> series_name \<times> int" where
  "detectSeriesFromFileName fileName =
     (if contains_ci ''T1'' fileName then (T1WI, 1)
      else if contains_ci ''T2'' fileName then (T2WI, 2)
      else if contains_ci ''FLAIR'' fileName then (FLAIR, 3)
      else if contains_ci ''DWI'' fileName then (DWI, 4)
      else if contains_ci ''SWI'' fileName then (SWI, 5)
      else if contains_ci ''ADC'' fileName then (ADC, 6)
      else (case seriesDigits fileName of
              Some d \<Rightarrow> (SeriesN (parseInt d), parseInt d)
            | None \<Rightarrow> (UnknownSeries, 999)))"

definition lastDigits :: "string \<Rightarrow> string" where
  \<comment> \<open>Group 1 of \<open>(\d+)(?!.*\d)\<close>: the last maximal run of digits, empty when there is none.\<close>
  "lastDigits s = rev (takeWhile is_digit (dropWhile (\<lambda>c. \<not> is_digit c) (rev s)))"

definition frameNumberOf :: "string \<Rightarrow> int" where
  "frameNumberOf s = (if lastDigits s = [] then 0 else parseInt (lastDigits s))"

definition seriesSortNumber :: "series_name \<Rightarrow> int" where
  \<comment> \<open>\<open>parseInt\<close> of the first run of digits of the display name, 999 when it has none. The
      name of \<open>SeriesN k\<close> writes \<open>k\<close> in decimal digits for \<open>k\<close> below \<open>10^21\<close>; the exponent
      notation of a larger \<open>k\<close> is not modelled.\<close>
  "seriesSortNumber n =
     (case n of T1WI \<Rightarrow> 1 | T2WI \<Rightarrow> 2 | SeriesN k \<Rightarrow> k | _ \<Rightarrow> 999)"


section \<open>Data model\<close>

text \<open>
  The interfaces and the fields of the class, as records. Two records cannot share a field
  name, so \<open>name\<close> and \<open>url\<close> of a frame are \<open>fr_name\<close> and \<open>fr_url\<close>, \<open>name\<close> of a
  series is \<open>sd_name\<close>, \<open>positions\<close> of the position map is \<open>pm_positions\<close> and its
  per-series tables are \<open>pm_series\<close>, and the field \<open>currentPosition\<close> of the view is
  \<open>viewPosition\<close>. Numbers that the code only ever computes as integers (indices,
  frame numbers, positions, \<open>Date.now()\<close>) are \<open>int\<close>; wheel deltas and the times of
  \<open>performance.now()\<close> are \<open>rat\<close>, the playback arithmetic on them rounded by
  \<open>roundDouble\<close>. The handlers run one at a time, each modelled as one function from view
  to view; what the DOM shows beyond these fields is left out.
\<close>

record input_file =
  fname :: string
  furl :: string  \<comment> \<open>the locator \<open>URL.createObjectURL\<close> returns for the file\<close>

record series_frame =
  fr_name :: string
  fr_url :: string
  frameNumber :: int
  position :: int

record series_data =
  sd_name :: series_name
  frames :: "series_frame list"
  sliceThickness :: int
  sliceSpacing :: int
  positions :: "int list"

record viewer_data =
  images :: "string list"  \<comment> \<open>the \<open>src\<close> of the two buffer slots\<close>
  currentActive :: nat
  currentFrame :: int
  currentPosition :: int
  filenameDisplay :: string

record image =
  img_src :: string
  complete :: bool
  decoded :: bool

record position_map =
  pm_positions :: "int list"
  indexMap :: "int \<rightharpoonup> int"
  pm_series :: "series_name \<rightharpoonup> (int \<rightharpoonup> int)"

datatype sync_mode = Frame | Position

text \<open>
  The closure of one \<open>startPlayback\<close> call: the captured frame count, the interval and
  the time of the last fire. \<open>fires\<close> is a ghost counter of the iterations that reached
  the interval.
\<close>

record playback =
  pb_maxFrames :: int
  delay :: rat
  lastTime :: rat
  fires :: nat

text \<open>
  What a call of \<open>updateSeriesFrame\<close> leaves behind beyond the fields of the view: a call
  of \<open>switchImage\<close> (series, target slot, locator), or a rejected promise after a
  \<open>TypeError\<close>.
\<close>

datatype effect = SwitchImage series_name nat string | Rejected series_name

record view =
  seriesData :: "(series_name \<times> series_data) list"
  activeViewers :: "(series_name \<times> viewer_data) list"
  imageCache :: "string \<rightharpoonup> image"
  currentFrameIndex :: int
  viewPosition :: "int option"  \<comment> \<open>the field \<open>currentPosition\<close> of the view; \<open>None\<close> is \<open>undefined\<close>\<close>
  isPlaying :: bool
  playInterval :: "playback option"
  playbackSpeed :: int
  syncEnabled :: bool
  syncMode :: sync_mode
  activeSeries :: "series_name option"
  lastWheelTime :: int
  wheelDelta :: rat
  positionMap :: position_map
  effects :: "effect list"  \<comment> \<open>ghost log\<close>

definition initialView :: view where
  "initialView =
     \<lparr>seriesData = [], activeViewers = [], imageCache = Map.empty, currentFrameIndex = 0,
      viewPosition = Some 0, isPlaying = False, playInterval = None, playbackSpeed = 5,
      syncEnabled = True, syncMode = Frame, activeSeries = None, lastWheelTime = 0,
      wheelDelta = 0,
      positionMap = \<lparr>pm_positions = [], indexMap = Map.empty, pm_series = Map.empty\<rparr>,
      effects = []\<rparr>"

definition nth_opt :: "'a list \<Rightarrow> int \<Rightarrow> 'a option" where
  \<comment> \<open>Array indexing: \<open>undefined\<close> out of range.\<close>
  "nth_opt xs i = (if 0 \<le> i \<and> i < int (length xs) then Some (xs ! nat i) else None)"


section \<open>ImageCache\<close>

text \<open>
  What the browser does with one \<open>Image\<close> whose \<open>src\<close> is set: it fires \<open>load\<close>, after
  which \<open>decode()\<close> fulfils or rejects, or it fires \<open>error\<close>. One of the two events is
  assumed to fire.
\<close>

datatype decode_result = DecodeOk | DecodeFailed
datatype load_event = OnLoad decode_result | OnError
datatype settled = Resolved | RejectedPromise

definition isReady :: "(string \<rightharpoonup> image) \<Rightarrow> string \<Rightarrow> bool" where
  "isReady cache url = (case cache url of Some img \<Rightarrow> complete img | None \<Rightarrow> False)"

text \<open>
  \<open>preloadImage\<close> returns the cache, how its promise settles, and whether it created an
  \<open>Image\<close>. The executor of the promise is handed \<open>resolve\<close> only, and each of its
  three handlers (decode fulfilled, decode rejected, load error) ends in \<open>resolve()\<close>.
\<close>

definition preloadImage ::
  "(string \<Rightarrow> load_event) \<Rightarrow> (string \<rightharpoonup> image) \<Rightarrow> string \<Rightarrow> (string \<rightharpoonup> image) \<times> settled \<times> bool" where
  "preloadImage env cache url =
     (if isReady cache url then (cache, Resolved, False)
      else (case env url of
              OnLoad DecodeOk \<Rightarrow>
                (cache(url \<mapsto> \<lparr>img_src = url, complete = True, decoded = True\<rparr>), Resolved, True)
            | OnLoad DecodeFailed \<Rightarrow>
                (cache(url \<mapsto> \<lparr>img_src = url, complete = True, decoded = False\<rparr>), Resolved, True)
            | OnError \<Rightarrow> (cache, Resolved, True)))"

text \<open>
  \<open>switchImage\<close> on one viewer: the swap when the locator is ready, else a preload and
  a retry when it settles. \<open>None\<close> is a chain of retries that never reaches the swap.
  The result is the cache and the viewer after the swap.
\<close>

partial_function (option) switchImage ::
  "(string \<Rightarrow> load_event) \<Rightarrow> (string \<rightharpoonup> image) \<Rightarrow> string \<Rightarrow> viewer_data \<Rightarrow> nat
     \<Rightarrow> ((string \<rightharpoonup> image) \<times> viewer_data) option" where
  "switchImage env cache frameUrl viewer nextActive =
     (if isReady cache frameUrl
      then Some (cache, viewer\<lparr>images := (images viewer)[nextActive := frameUrl],
                               currentActive := nextActive\<rparr>)
      else switchImage env (fst (preloadImage env cache frameUrl)) frameUrl viewer nextActive)"

text \<open>The same loop with a bound on the number of retries, and the retries counted.\<close>

fun switchImageN ::
  "nat \<Rightarrow> (string \<Rightarrow> load_event) \<Rightarrow> (string \<rightharpoonup> image) \<Rightarrow> string \<Rightarrow> viewer_data \<Rightarrow> nat
     \<Rightarrow> ((string \<rightharpoonup> image) \<times> viewer_data \<times> nat) option" where
  "switchImageN 0 env cache frameUrl viewer nextActive =
     (if isReady cache frameUrl
      then Some (cache, viewer\<lparr>images := (images viewer)[nextActive := frameUrl],
                               currentActive := nextActive\<rparr>, 0)
      else None)"
| "switchImageN (Suc n) env cache frameUrl viewer nextActive =
     (if isReady cache frameUrl
      then Some (cache, viewer\<lparr>images := (images viewer)[nextActive := frameUrl],
                               currentActive := nextActive\<rparr>, 0)
      else map_option (\<lambda>(c, v, k). (c, v, Suc k))
             (switchImageN n env (fst (preloadImage env cache frameUrl)) frameUrl viewer nextActive))"


section \<open>SeriesCatalog and PositionIndex\<close>

definition uniqueElems :: "'a list \<Rightarrow> 'a list" where
  \<comment> \<open>\<open>[...new Set(xs)]\<close>: the first occurrence of each element, in order.\<close>
  "uniqueElems xs = rev (remdups (rev xs))"

definition indexMapOf :: "int list \<Rightarrow> (int \<rightharpoonup> int)" where
  \<comment> \<open>Position to frame index; a later frame at the same position overwrites.\<close>
  "indexMapOf ps = foldl (\<lambda>m (i, p). m(p \<mapsto> int i)) Map.empty (enumerate 0 ps)"

definition createPositionMap :: "view \<Rightarrow> view" where
  "createPositionMap s =
     (let allPositions = concat (map (\<lambda>(n, sd). positions sd) (seriesData s));
          uniquePositions = sort (uniqueElems allPositions);
          per = foldl (\<lambda>m (n, sd). m(n \<mapsto> indexMapOf (positions sd)))
                  (pm_series (positionMap s)) (seriesData s)
      in s\<lparr>positionMap :=
             \<lparr>pm_positions = uniquePositions, indexMap = Map.empty, pm_series = per\<rparr>\<rparr>)"

text \<open>
  The series \<open>processSeriesFiles\<close> builds from the files of one group: the frames in
  ascending frame number (a stable sort), the position of a frame its index times 5.
\<close>

definition buildSeries :: "series_name \<Rightarrow> input_file list \<Rightarrow> series_data" where
  "buildSeries seriesName files =
     (let framesWithNumbers = sort_key snd (map (\<lambda>f. (f, frameNumberOf (fname f))) files);
          frs = map (\<lambda>(i, (f, n)).
                       \<lparr>fr_name = fname f, fr_url = furl f, frameNumber = n,
                        position = int i * 5\<rparr>)
                  (enumerate 0 framesWithNumbers)
      in \<lparr>sd_name = seriesName, frames = frs, sliceThickness = 5, sliceSpacing = 5,
          positions = map position frs\<rparr>)"

definition processSeriesFiles ::
  "(string \<Rightarrow> load_event) \<Rightarrow> series_name \<Rightarrow> input_file list \<Rightarrow> view \<Rightarrow> view" where
  "processSeriesFiles env seriesName files s =
     (let series = buildSeries seriesName files;
          cache = foldl (\<lambda>c fr. fst (preloadImage env c (fr_url fr))) (imageCache s)
                    (frames series)
      in createPositionMap
           (s\<lparr>imageCache := cache,
              seriesData := AList.update seriesName series (seriesData s)\<rparr>))"


section \<open>SyncController\<close>

text \<open>
  How \<open>updateSeriesFrame\<close> chooses the frame to display: an index, an early return (an
  unsynced update that is not forced), or a \<open>TypeError\<close> (the position map has no table
  for the series).
\<close>

datatype resolved = Display int | Return | Throw

definition resolveFrame :: "view \<Rightarrow> series_name \<Rightarrow> series_data \<Rightarrow> int \<Rightarrow> bool \<Rightarrow> resolved" where
  \<comment> \<open>The frame a series displays for a global index: the first part of \<open>updateSeriesFrame\<close>.\<close>
  "resolveFrame s seriesName series frameIndex forceUpdate =
     (if syncEnabled s \<and> syncMode s = Position then
        (case pm_series (positionMap s) seriesName of
           None \<Rightarrow> Throw
         | Some m \<Rightarrow>
             (case nth_opt (pm_positions (positionMap s)) frameIndex of
                None \<Rightarrow> Display 0
              | Some p \<Rightarrow> (case m p of None \<Rightarrow> Display 0 | Some i \<Rightarrow> Display i)))
      else if syncEnabled s then Display (min frameIndex (int (length (frames series)) - 1))
      else if forceUpdate then Display (min frameIndex (int (length (frames series)) - 1))
      else Return)"

definition updateSeriesFrame :: "series_name \<Rightarrow> int \<Rightarrow> bool \<Rightarrow> view \<Rightarrow> view" where
  "updateSeriesFrame seriesName frameIndex forceUpdate s =
     (case (map_of (activeViewers s) seriesName, map_of (seriesData s) seriesName) of
        (Some viewer, Some series) \<Rightarrow>
          (case resolveFrame s seriesName series frameIndex forceUpdate of
             Throw \<Rightarrow> s\<lparr>effects := effects s @ [Rejected seriesName]\<rparr>
           | Return \<Rightarrow> s
           | Display d \<Rightarrow>
               if \<not> forceUpdate \<and> currentFrame viewer = d then s
               else
                 (let viewer1 = viewer\<lparr>currentFrame := d,
                        currentPosition :=
                          (case nth_opt (positions series) d of Some p \<Rightarrow> p | None \<Rightarrow> 0)\<rparr>
                  in case nth_opt (frames series) d of
                       None \<Rightarrow>
                         s\<lparr>activeViewers := AList.update seriesName viewer1 (activeViewers s),
                           effects := effects s @ [Rejected seriesName]\<rparr>
                     | Some frameObj \<Rightarrow>
                         s\<lparr>activeViewers := AList.update seriesName
                              (viewer1\<lparr>filenameDisplay := fr_name frameObj\<rparr>) (activeViewers s),
                           effects := effects s @
                             [SwitchImage seriesName ((currentActive viewer + 1) mod 2)
                                (fr_url frameObj)]\<rparr>))
      | _ \<Rightarrow> s)"

definition showFrame :: "int \<Rightarrow> bool \<Rightarrow> series_name option \<Rightarrow> view \<Rightarrow> view" where
  "showFrame frameIndex0 allowLoop targetSeries s =
     (let maxFrames = int (length (pm_positions (positionMap s)));
          frameIndex =
            (if allowLoop then
               (if frameIndex0 < 0 then maxFrames - 1
                else if frameIndex0 \<ge> maxFrames then 0 else frameIndex0)
             else max 0 (min frameIndex0 (maxFrames - 1)));
          s1 = s\<lparr>currentFrameIndex := frameIndex,
                 viewPosition := nth_opt (pm_positions (positionMap s)) frameIndex\<rparr>
      in if syncEnabled s1 then
           foldl (\<lambda>st n. updateSeriesFrame n frameIndex False st) s1 (map fst (activeViewers s1))
         else (case targetSeries of
                 Some t \<Rightarrow> updateSeriesFrame t frameIndex True s1
               | None \<Rightarrow> s1))"

definition newViewer :: "series_data \<Rightarrow> viewer_data" where
  \<comment> \<open>The viewer \<open>createSeriesViewers\<close> sets up for a series: its first frame in slot 0.\<close>
  "newViewer sd =
     (case frames sd of
        [] \<Rightarrow> \<lparr>images = ['''', ''''], currentActive = 0, currentFrame = 0,
               currentPosition = 0, filenameDisplay = ''''\<rparr>
      | fr # _ \<Rightarrow> \<lparr>images = [fr_url fr, ''''], currentActive = 0, currentFrame = 0,
                   currentPosition = 0, filenameDisplay = fr_name fr\<rparr>)"

definition createSeriesViewers :: "view \<Rightarrow> view" where
  "createSeriesViewers s =
     (let seriesList = sort_key (\<lambda>(n, sd). seriesSortNumber (sd_name sd)) (seriesData s)
      in showFrame 0 False None
           (s\<lparr>activeViewers :=
                foldl (\<lambda>vs (n, sd). AList.update n (newViewer sd) vs) (activeViewers s)
                  seriesList\<rparr>))"

definition showPreviousFrame :: "bool \<Rightarrow> series_name option \<Rightarrow> view \<Rightarrow> view" where
  "showPreviousFrame allowLoop targetSeries s =
     (if syncEnabled s then
        (let maxFrames = int (length (pm_positions (positionMap s)));
             newIndex0 = currentFrameIndex s - 1;
             newIndex = (if allowLoop then (if newIndex0 < 0 then maxFrames - 1 else newIndex0)
                         else max 0 newIndex0)
         in showFrame newIndex allowLoop None s)
      else (case targetSeries of
              None \<Rightarrow> s
            | Some t \<Rightarrow>
                (case (map_of (activeViewers s) t, map_of (seriesData s) t) of
                   (Some viewer, Some series) \<Rightarrow>
                     (let newIndex0 = currentFrame viewer - 1;
                          newIndex =
                            (if allowLoop then
                               (if newIndex0 < 0 then int (length (frames series)) - 1
                                else newIndex0)
                             else max 0 newIndex0)
                      in updateSeriesFrame t newIndex True
                           (s\<lparr>currentFrameIndex := newIndex,
                              viewPosition := nth_opt (positions series) newIndex\<rparr>))
                 | _ \<Rightarrow> s)))"

definition showNextFrame :: "bool \<Rightarrow> series_name option \<Rightarrow> view \<Rightarrow> view" where
  "showNextFrame allowLoop targetSeries s =
     (if syncEnabled s then
        (let maxFrames = int (length (pm_positions (positionMap s)));
             newIndex0 = currentFrameIndex s + 1;
             newIndex = (if allowLoop then (if newIndex0 \<ge> maxFrames then 0 else newIndex0)
                         else min (maxFrames - 1) newIndex0)
         in showFrame newIndex allowLoop None s)
      else (case targetSeries of
              None \<Rightarrow> s
            | Some t \<Rightarrow>
                (case (map_of (activeViewers s) t, map_of (seriesData s) t) of
                   (Some viewer, Some series) \<Rightarrow>
                     (let newIndex0 = currentFrame viewer + 1;
                          newIndex =
                            (if allowLoop then
                               (if newIndex0 \<ge> int (length (frames series)) then 0
                                else newIndex0)
                             else min (int (length (frames series)) - 1) newIndex0)
                      in updateSeriesFrame t newIndex True
                           (s\<lparr>currentFrameIndex := newIndex,
                              viewPosition := nth_opt (positions series) newIndex\<rparr>))
                 | _ \<Rightarrow> s)))"

definition groupFiles :: "input_file list \<Rightarrow> (series_name \<times> input_file list) list" where
  "groupFiles files =
     foldl (\<lambda>g f. let n = fst (detectSeriesFromFileName (fname f))
                   in AList.update n ((case map_of g n of None \<Rightarrow> [] | Some fs \<Rightarrow> fs) @ [f]) g)
       [] files"

definition handleFileSelect :: "(string \<Rightarrow> load_event) \<Rightarrow> input_file list \<Rightarrow> view \<Rightarrow> view" where
  "handleFileSelect env files s =
     (if files = [] then s
      else
        (let s0 = s\<lparr>seriesData := [], activeViewers := [], imageCache := Map.empty,
                    activeSeries := None\<rparr>;
             s1 = foldl (\<lambda>st (n, fs). processSeriesFiles env n fs st) s0 (groupFiles files)
         in showFrame 0 False None (createSeriesViewers s1)))"

text \<open>\<open>loadFile\<close> for a file the vault could read; a failed read leaves the view as it was.\<close>

definition loadFile :: "input_file \<Rightarrow> view \<Rightarrow> view" where
  "loadFile f s =
     (let frame = \<lparr>fr_name = fname f, fr_url = furl f, frameNumber = 0, position = 0\<rparr>;
          seriesName = fst (detectSeriesFromFileName (fname f))
      in showFrame 0 False None
           (createSeriesViewers
              (s\<lparr>seriesData := AList.update seriesName
                   \<lparr>sd_name = seriesName, frames = [frame], sliceThickness = 5,
                    sliceSpacing = 5, positions = [0]\<rparr> (seriesData s)\<rparr>)))"

text \<open>
  \<open>Math.min\<close> over the viewers' current frames. With no viewer it is \<open>Infinity\<close>, which
  \<open>showFrame\<close> clamps as it clamps every index beyond the last: the model passes the
  frame count in that case.
\<close>

definition showMinFrame :: "view \<Rightarrow> view" where
  "showMinFrame s =
     (case map (\<lambda>(n, v). currentFrame v) (activeViewers s) of
        [] \<Rightarrow> showFrame (int (length (pm_positions (positionMap s)))) False None s
      | c # cs \<Rightarrow>
          (let minFrameIndex = fold min cs c
           in showFrame minFrameIndex False None (s\<lparr>currentFrameIndex := minFrameIndex\<rparr>)))"

definition setSyncFrame :: "view \<Rightarrow> view" where
  "setSyncFrame s =
     (let s1 = s\<lparr>syncMode := Frame\<rparr> in if syncEnabled s1 then showMinFrame s1 else s1)"

definition setSyncPosition :: "view \<Rightarrow> view" where
  \<comment> \<open>The minimum position the handler stores is overwritten by \<open>showFrame\<close> at once.\<close>
  "setSyncPosition s =
     (let s1 = s\<lparr>syncMode := Position\<rparr>
      in if syncEnabled s1 then showFrame (currentFrameIndex s1) False None s1 else s1)"

definition setSyncEnabled :: "bool \<Rightarrow> view \<Rightarrow> view" where
  "setSyncEnabled b s =
     (let s1 = s\<lparr>syncEnabled := b\<rparr>
      in if syncEnabled s1 then showMinFrame (s1\<lparr>activeSeries := None\<rparr>) else s1)"

definition handleSeriesSelect :: "series_name \<Rightarrow> view \<Rightarrow> view" where
  "handleSeriesSelect seriesName s =
     (if \<not> syncEnabled s then
        (let s1 = s\<lparr>activeSeries := Some seriesName\<rparr>
         in case map_of (activeViewers s1) seriesName of
              Some viewer \<Rightarrow>
                s1\<lparr>currentFrameIndex := currentFrame viewer,
                   viewPosition := Some (currentPosition viewer)\<rparr>
            | None \<Rightarrow> s1)
      else s)"

definition handleWheelScroll :: "int \<Rightarrow> rat \<Rightarrow> series_name \<Rightarrow> view \<Rightarrow> view" where
  "handleWheelScroll now deltaY seriesName s =
     (if now - lastWheelTime s < 30 then s
      else
        (let s1 = s\<lparr>lastWheelTime := now, wheelDelta := wheelDelta s + deltaY\<rparr>
         in if \<bar>wheelDelta s1\<bar> > 30 then
              (if wheelDelta s1 > 0 then showNextFrame True (Some seriesName) s1
               else showPreviousFrame True (Some seriesName) s1)\<lparr>wheelDelta := 0\<rparr>
            else s1))"


section \<open>PlaybackScheduler\<close>

definition stopPlayback :: "view \<Rightarrow> view" where
  "stopPlayback s = s\<lparr>playInterval := None\<rparr>"

definition startPlayback :: "rat \<Rightarrow> view \<Rightarrow> view" where
  \<comment> \<open>\<open>now\<close> is \<open>performance.now()\<close> at the call.\<close>
  "startPlayback now s =
     (let maxFrames = int (length (pm_positions (positionMap s)))
      in if maxFrames = 0 then stopPlayback s
         else s\<lparr>playInterval :=
                  Some \<lparr>pb_maxFrames = maxFrames,
                        delay = roundDouble (1000 / of_int (playbackSpeed s)),
                        lastTime = now, fires = 0\<rparr>\<rparr>)"

text \<open>
  One run of the callback \<open>framePlayback\<close> at the time the browser passes to it, a double.
  The callback requests the next animation frame at its end; where it returns early or a
  \<open>TypeError\<close> ends it, no callback is pending afterwards.
\<close>

definition framePlayback :: "playback \<Rightarrow> rat \<Rightarrow> view \<Rightarrow> view" where
  "framePlayback pb time s =
     (if \<not> isPlaying s then s\<lparr>playInterval := None\<rparr>
      else
        (let elapsed = roundDouble (time - lastTime pb)
         in if elapsed \<ge> delay pb then
              (let pb1 = pb\<lparr>lastTime := roundDouble (time - js_rem elapsed (delay pb)),
                             fires := Suc (fires pb)\<rparr>
               in if syncEnabled s then
                    (if currentFrameIndex s \<ge> pb_maxFrames pb - 1
                     then showFrame 0 False None s
                     else showNextFrame False None s)\<lparr>playInterval := Some pb1\<rparr>
                  else (case activeSeries s of
                          None \<Rightarrow> s\<lparr>playInterval := Some pb1\<rparr>
                        | Some a \<Rightarrow>
                            (case map_of (activeViewers s) a of
                               None \<Rightarrow> s\<lparr>playInterval := None\<rparr>
                             | Some viewer \<Rightarrow>
                                 (if currentFrame viewer \<ge> pb_maxFrames pb - 1
                                  then showFrame 0 False (Some a) s
                                  else showNextFrame False (Some a) s)
                                 \<lparr>playInterval := Some pb1\<rparr>)))
            else s\<lparr>playInterval := Some pb\<rparr>))"

definition animationFrame :: "rat \<Rightarrow> view \<Rightarrow> view" where
  "animationFrame time s =
     (case playInterval s of None \<Rightarrow> s | Some pb \<Rightarrow> framePlayback pb time s)"

definition togglePlayback :: "rat \<Rightarrow> view \<Rightarrow> view" where
  "togglePlayback now s =
     (let s1 = s\<lparr>isPlaying := \<not> isPlaying s\<rparr>
      in if isPlaying s1 then startPlayback now s1 else stopPlayback s1)"

definition setPlaybackSpeed :: "int \<Rightarrow> rat \<Rightarrow> view \<Rightarrow> view" where
  "setPlaybackSpeed v now s =
     (let s1 = s\<lparr>playbackSpeed := v\<rparr>
      in if isPlaying s1 then startPlayback now (stopPlayback s1) else s1)"


section \<open>Events and reachable states\<close>

text \<open>
  The end of a transition that \<open>updateSeriesFrame\<close> started: once the locator is ready,
  \<open>switchImage\<close> writes it into the target slot and, two paints later, makes that slot the
  active one. That happens after the handler that started the transition has returned, so
  it is an event of its own. The callback holds the viewer it was started for; the model
  applies it to the viewer the series has at that time.
\<close>

definition completeSwitch :: "series_name \<Rightarrow> nat \<Rightarrow> string \<Rightarrow> view \<Rightarrow> view" where
  "completeSwitch seriesName nextActive frameUrl s =
     (case map_of (activeViewers s) seriesName of
        None \<Rightarrow> s
      | Some viewer \<Rightarrow>
          s\<lparr>activeViewers := AList.update seriesName
               (viewer\<lparr>images := (images viewer)[nextActive := frameUrl],
                       currentActive := nextActive\<rparr>) (activeViewers s)\<rparr>)"

datatype event =
    FileSelect "string \<Rightarrow> load_event" "input_file list"
  | LoadFile input_file
  | SyncFrameRadio
  | SyncPositionRadio
  | SyncEnableCheckbox bool
  | SeriesClick series_name
  | Wheel int rat series_name
  | PreviousKey
  | NextKey
  | FrameSlider int
  | PlayButton rat
  | SpeedSlider int rat
  | AnimationFrame rat
  | SwitchDone series_name nat string

fun handle :: "event \<Rightarrow> view \<Rightarrow> view" where
  "handle (FileSelect env files) s = handleFileSelect env files s"
| "handle (LoadFile f) s = loadFile f s"
| "handle SyncFrameRadio s = setSyncFrame s"
| "handle SyncPositionRadio s = setSyncPosition s"
| "handle (SyncEnableCheckbox b) s = setSyncEnabled b s"
| "handle (SeriesClick n) s = handleSeriesSelect n s"
| "handle (Wheel now dy n) s = handleWheelScroll now dy n s"
| "handle PreviousKey s =
     showPreviousFrame True (if syncEnabled s then None else activeSeries s) s"
| "handle NextKey s =
     showNextFrame True (if syncEnabled s then None else activeSeries s) s"
| "handle (FrameSlider v) s = showFrame (v - 1) False None s"
| "handle (PlayButton now) s = togglePlayback now s"
| "handle (SpeedSlider v now) s = setPlaybackSpeed v now s"
| "handle (AnimationFrame time) s = animationFrame time s"
| "handle (SwitchDone n nextActive frameUrl) s = completeSwitch n nextActive frameUrl s"

inductive reachable :: "view \<Rightarrow> bool" where
  reachable_init: "reachable initialView"
| reachable_step: "reachable s \<Longrightarrow> reachable (handle e s)"


section \<open>Auxiliary notions for the properties\<close>

text \<open>The example of the specification: five T1 files and three T2 files, selected together.\<close>

definition exampleFile :: "string \<Rightarrow> input_file" where
  "exampleFile n = \<lparr>fname = n, furl = ''blob:'' @ n\<rparr>"

definition exampleT1Files :: "input_file list" where
  "exampleT1Files = map exampleFile
     [''T1_01.jpg'', ''T1_02.jpg'', ''T1_03.jpg'', ''T1_04.jpg'', ''T1_05.jpg'']"

definition exampleT2Files :: "input_file list" where
  "exampleT2Files = map exampleFile [''T2_01.jpg'', ''T2_02.jpg'', ''T2_03.jpg'']"

definition exampleFiles :: "input_file list" where
  "exampleFiles = exampleT1Files @ exampleT2Files"

definition exampleView :: view where
  "exampleView = handleFileSelect (\<lambda>u. OnLoad DecodeOk) exampleFiles initialView"

text \<open>
  The example with one more file loaded on its own, and position mode chosen: \<open>loadFile\<close>
  replaces the T1 series by a single frame.
\<close>

definition staleView :: view where
  "staleView = setSyncPosition (loadFile (exampleFile ''T1_01.jpg'') exampleView)"

text \<open>The global positions a rebuild computes from the series of a view.\<close>

definition globalPositionsOf :: "view \<Rightarrow> int list" where
  "globalPositionsOf s =
     sort (uniqueElems (concat (map (\<lambda>(n, sd). positions sd) (seriesData s))))"

text \<open>The position index of a view is the one a rebuild from its series gives.\<close>

definition positionIndexBuilt :: "view \<Rightarrow> bool" where
  "positionIndexBuilt s \<longleftrightarrow>
     distinct (map fst (seriesData s)) \<and>
     pm_positions (positionMap s) = globalPositionsOf s \<and>
     (\<forall>(n, sd) \<in> set (seriesData s).
        pm_series (positionMap s) n = Some (indexMapOf (positions sd)))"

text \<open>The calls of \<open>switchImage\<close> in the log: the frame transitions.\<close>

fun isTransition :: "effect \<Rightarrow> bool" where
  "isTransition (SwitchImage n a u) = True"
| "isTransition (Rejected n) = False"

definition transitions :: "view \<Rightarrow> effect list" where
  "transitions s = filter isTransition (effects s)"

text \<open>The index \<open>showFrame\<close> without wrap-around navigates to.\<close>

definition clampIndex :: "view \<Rightarrow> int \<Rightarrow> int" where
  "clampIndex s i = max 0 (min i (int (length (pm_positions (positionMap s))) - 1))"

text \<open>
  A series displays the frame the global index \<open>k\<close> resolves to for it (when it is bound
  and the index resolves); \<open>settledAt\<close>: every series does.
\<close>

definition seriesSettled :: "int \<Rightarrow> view \<Rightarrow> series_name \<Rightarrow> bool" where
  "seriesSettled k s n \<longleftrightarrow>
     (\<forall>v sd d. map_of (activeViewers s) n = Some v \<longrightarrow> map_of (seriesData s) n = Some sd
        \<longrightarrow> resolveFrame s n sd k False = Display d \<longrightarrow> currentFrame v = d)"

definition settledAt :: "int \<Rightarrow> view \<Rightarrow> bool" where
  "settledAt k s \<longleftrightarrow> (\<forall>n. seriesSettled k s n)"

text \<open>
  \<open>navigate(0, wrap=false)\<close> of the specification: \<open>showFrame\<close> at the current global
  index, without wrap-around, for an optional target series.
\<close>

definition renavigate :: "series_name option \<Rightarrow> view \<Rightarrow> view" where
  "renavigate t s = showFrame (currentFrameIndex s) False t s"

text \<open>
  Callback times with no missed tick: each comes no earlier than the one before and at
  most one interval after it. \<open>wholeTimes\<close>: the times are whole milliseconds below
  \<open>2^53\<close>, on which the arithmetic of the playback loop is exact when the interval is
  whole too.
\<close>

fun paced :: "rat \<Rightarrow> rat \<Rightarrow> rat list \<Rightarrow> bool" where
  "paced d t [] = True"
| "paced d t (u # us) = (t \<le> u \<and> u - t \<le> d \<and> paced d u us)"

fun wholeTimes :: "rat list \<Rightarrow> bool" where
  "wholeTimes [] = True"
| "wholeTimes (t # ts) = (t \<in> \<int> \<and> 0 \<le> t \<and> t < 2 ^ 53 \<and> wholeTimes ts)"

definition runFrames :: "rat list \<Rightarrow> view \<Rightarrow> view" where
  "runFrames ts s = foldl (\<lambda>st t. animationFrame t st) s ts"

text \<open>
  The variables of the playback closure after a callback that found the view playing:
  the part of \<open>framePlayback\<close> that does not touch the view.
\<close>

definition closureStep :: "playback \<Rightarrow> rat \<Rightarrow> playback" where
  "closureStep pb time =
     (let elapsed = roundDouble (time - lastTime pb)
      in if elapsed \<ge> delay pb
         then pb\<lparr>lastTime := roundDouble (time - js_rem elapsed (delay pb)),
                 fires := Suc (fires pb)\<rparr>
         else pb)"

text \<open>The example played from time 0 at the rate 7 of the speed slider.\<close>

definition exampleRate7 :: view where
  "exampleRate7 = togglePlayback 0 (setPlaybackSpeed 7 0 exampleView)"


section \<open>Rounding is exact on integers\<close>

lemma roundEven_int: "m \<in> \<int> \<Longrightarrow> of_int (roundEven m) = m"
  by (auto simp add: roundEven_def Let_def elim!: Ints_cases)

lemma doubleScale_int:
  "m \<in> \<int> \<Longrightarrow> 0 < m \<Longrightarrow> m < 2 ^ 53 \<Longrightarrow> doubleScale n m u = (m', u')
    \<Longrightarrow> m' \<in> \<int> \<and> m' * u' = m * u"
proof (induction n arbitrary: m u)
  case 0
  then show ?case by simp
next
  case (Suc n)
  show ?case
  proof (cases "m < 2 ^ 52")
    case True
    have i: "2 * m \<in> \<int>" using Suc.prems(1) by simp
    have r: "0 < 2 * m" "2 * m < 2 ^ 53" using Suc.prems(2) True by simp_all
    have "doubleScale n (2 * m) (u / 2) = (m', u')"
      using Suc.prems(4) True by simp
    from Suc.IH [OF i r this] show ?thesis by simp
  next
    case False
    with Suc.prems show ?thesis by simp
  qed
qed

lemma roundDouble_int:
  assumes "x \<in> \<int>" and "\<bar>x\<bar> < 2 ^ 53"
  shows "roundDouble x = x"
proof (cases "x = 0")
  case True
  then show ?thesis by (simp add: roundDouble_def)
next
  case False
  obtain m u where mu: "doubleScale 1074 \<bar>x\<bar> 1 = (m, u)"
    by (cases "doubleScale 1074 \<bar>x\<bar> 1")
  have "\<bar>x\<bar> \<in> \<int>" using assms(1) by simp
  moreover have "0 < \<bar>x\<bar>" using False by simp
  ultimately have "m \<in> \<int> \<and> m * u = \<bar>x\<bar> * 1"
    using assms(2) mu by (rule doubleScale_int)
  then have "of_int (roundEven m) * u = \<bar>x\<bar>"
    by (simp add: roundEven_int)
  then have "sgn x * of_int (roundEven m) * u = sgn x * \<bar>x\<bar>"
    by (simp add: mult.assoc)
  then show ?thesis using False mu by (simp add: roundDouble_def sgn_mult_abs)
qed

lemma parseInt_exact [code]:
  "parseInt ds =
     (let v = foldl (\<lambda>a c. 10 * a + (int (of_char c) - 48)) 0 ds
      in if \<bar>v\<bar> < 2 ^ 53 then v else \<lfloor>roundDouble (of_int v)\<rfloor>)"
proof -
  have "\<bar>v\<bar> < 2 ^ 53 \<Longrightarrow> \<lfloor>roundDouble (of_int v)\<rfloor> = v" for v :: int
  proof -
    assume a: "\<bar>v\<bar> < 2 ^ 53"
    have "\<bar>(of_int v :: rat)\<bar> < 2 ^ 53"
    proof -
      have "\<bar>(of_int v :: rat)\<bar> = of_int \<bar>v\<bar>" by simp
      also have "\<dots> < of_int (2 ^ 53)" using a by (simp only: of_int_less_iff)
      finally show ?thesis by simp
    qed
    then have "roundDouble (of_int v) = of_int v"
      by (intro roundDouble_int) simp_all
    then show ?thesis by simp
  qed
  then show ?thesis by (simp add: parseInt_def Let_def)
qed


section \<open>Fields a navigation leaves alone\<close>


lemma updateSeriesFrame_fields [simp]:
  "seriesData (updateSeriesFrame n i f s) = seriesData s"
  "positionMap (updateSeriesFrame n i f s) = positionMap s"
  "syncEnabled (updateSeriesFrame n i f s) = syncEnabled s"
  "syncMode (updateSeriesFrame n i f s) = syncMode s"
  "activeSeries (updateSeriesFrame n i f s) = activeSeries s"
  "lastWheelTime (updateSeriesFrame n i f s) = lastWheelTime s"
  "wheelDelta (updateSeriesFrame n i f s) = wheelDelta s"
  "isPlaying (updateSeriesFrame n i f s) = isPlaying s"
  "playInterval (updateSeriesFrame n i f s) = playInterval s"
  "playbackSpeed (updateSeriesFrame n i f s) = playbackSpeed s"
  "imageCache (updateSeriesFrame n i f s) = imageCache s"
  "currentFrameIndex (updateSeriesFrame n i f s) = currentFrameIndex s"
  "viewPosition (updateSeriesFrame n i f s) = viewPosition s"
  by (simp_all add: updateSeriesFrame_def Let_def split: option.splits resolved.splits)

lemma update_present_keys:
  "map_of xs k = Some v \<Longrightarrow> map fst (AList.update k w xs) = map fst xs"
  by (induction xs) (auto split: if_splits)

lemma updateSeriesFrame_keys [simp]:
  "map fst (activeViewers (updateSeriesFrame n i f s)) = map fst (activeViewers s)"
  by (simp add: updateSeriesFrame_def Let_def update_present_keys
        split: option.splits resolved.splits)

lemma updateAll_fields [simp]:
  "seriesData (foldl (\<lambda>st n. updateSeriesFrame n i False st) s ns) = seriesData s"
  "positionMap (foldl (\<lambda>st n. updateSeriesFrame n i False st) s ns) = positionMap s"
  "syncEnabled (foldl (\<lambda>st n. updateSeriesFrame n i False st) s ns) = syncEnabled s"
  "syncMode (foldl (\<lambda>st n. updateSeriesFrame n i False st) s ns) = syncMode s"
  "activeSeries (foldl (\<lambda>st n. updateSeriesFrame n i False st) s ns) = activeSeries s"
  "lastWheelTime (foldl (\<lambda>st n. updateSeriesFrame n i False st) s ns) = lastWheelTime s"
  "wheelDelta (foldl (\<lambda>st n. updateSeriesFrame n i False st) s ns) = wheelDelta s"
  "isPlaying (foldl (\<lambda>st n. updateSeriesFrame n i False st) s ns) = isPlaying s"
  "playInterval (foldl (\<lambda>st n. updateSeriesFrame n i False st) s ns) = playInterval s"
  "playbackSpeed (foldl (\<lambda>st n. updateSeriesFrame n i False st) s ns) = playbackSpeed s"
  "imageCache (foldl (\<lambda>st n. updateSeriesFrame n i False st) s ns) = imageCache s"
  "currentFrameIndex (foldl (\<lambda>st n. updateSeriesFrame n i False st) s ns) = currentFrameIndex s"
  "viewPosition (foldl (\<lambda>st n. updateSeriesFrame n i False st) s ns) = viewPosition s"
  "map fst (activeViewers (foldl (\<lambda>st n. updateSeriesFrame n i False st) s ns)) = map fst (activeViewers s)"
  by (induction ns arbitrary: s; simp)+

lemma showFrame_fields [simp]:
  "seriesData (showFrame i l t s) = seriesData s"
  "positionMap (showFrame i l t s) = positionMap s"
  "syncEnabled (showFrame i l t s) = syncEnabled s"
  "syncMode (showFrame i l t s) = syncMode s"
  "activeSeries (showFrame i l t s) = activeSeries s"
  "lastWheelTime (showFrame i l t s) = lastWheelTime s"
  "wheelDelta (showFrame i l t s) = wheelDelta s"
  "isPlaying (showFrame i l t s) = isPlaying s"
  "playInterval (showFrame i l t s) = playInterval s"
  "playbackSpeed (showFrame i l t s) = playbackSpeed s"
  "imageCache (showFrame i l t s) = imageCache s"
  "map fst (activeViewers (showFrame i l t s)) = map fst (activeViewers s)"
  by (simp_all add: showFrame_def Let_def split: option.splits)

lemma showNextFrame_fields [simp]:
  "seriesData (showNextFrame l t s) = seriesData s"
  "positionMap (showNextFrame l t s) = positionMap s"
  "syncEnabled (showNextFrame l t s) = syncEnabled s"
  "syncMode (showNextFrame l t s) = syncMode s"
  "activeSeries (showNextFrame l t s) = activeSeries s"
  "lastWheelTime (showNextFrame l t s) = lastWheelTime s"
  "wheelDelta (showNextFrame l t s) = wheelDelta s"
  "isPlaying (showNextFrame l t s) = isPlaying s"
  "playInterval (showNextFrame l t s) = playInterval s"
  "playbackSpeed (showNextFrame l t s) = playbackSpeed s"
  "imageCache (showNextFrame l t s) = imageCache s"
  "map fst (activeViewers (showNextFrame l t s)) = map fst (activeViewers s)"
  by (simp_all add: showNextFrame_def Let_def split: option.splits)

lemma showPreviousFrame_fields [simp]:
  "seriesData (showPreviousFrame l t s) = seriesData s"
  "positionMap (showPreviousFrame l t s) = positionMap s"
  "syncEnabled (showPreviousFrame l t s) = syncEnabled s"
  "syncMode (showPreviousFrame l t s) = syncMode s"
  "activeSeries (showPreviousFrame l t s) = activeSeries s"
  "lastWheelTime (showPreviousFrame l t s) = lastWheelTime s"
  "wheelDelta (showPreviousFrame l t s) = wheelDelta s"
  "isPlaying (showPreviousFrame l t s) = isPlaying s"
  "playInterval (showPreviousFrame l t s) = playInterval s"
  "playbackSpeed (showPreviousFrame l t s) = playbackSpeed s"
  "imageCache (showPreviousFrame l t s) = imageCache s"
  "map fst (activeViewers (showPreviousFrame l t s)) = map fst (activeViewers s)"
  by (simp_all add: showPreviousFrame_def Let_def split: option.splits)

section \<open>ImageCache: preload and the retry of a transition\<close>

text \<open>
  C5: \<open>preloadImage\<close> never rejects and is memoized by locator. Whatever the browser
  does with the image, the promise resolves. For a locator that is cached and
  load-complete it resolves at once, creating no image and leaving the cache as it is.
  Otherwise it creates one image: when that loads, decoded or not, the image is stored
  under the locator (the raw loaded image when decoding fails) and every other entry of
  the cache is kept; when it fails to load the cache is left as it is. After a load the
  locator is ready, and a second call for it resolves at once.
\<close>

theorem preloadImage_never_rejects:
  "fst (snd (preloadImage env cache url)) = Resolved \<and>
   (isReady cache url \<longrightarrow> preloadImage env cache url = (cache, Resolved, False)) \<and>
   (\<not> isReady cache url \<and> env url = OnLoad DecodeOk \<longrightarrow>
      preloadImage env cache url
        = (cache(url \<mapsto> \<lparr>img_src = url, complete = True, decoded = True\<rparr>), Resolved, True)) \<and>
   (\<not> isReady cache url \<and> env url = OnLoad DecodeFailed \<longrightarrow>
      preloadImage env cache url
        = (cache(url \<mapsto> \<lparr>img_src = url, complete = True, decoded = False\<rparr>), Resolved, True)) \<and>
   (\<not> isReady cache url \<and> env url = OnError \<longrightarrow>
      preloadImage env cache url = (cache, Resolved, True)) \<and>
   (env url \<noteq> OnError \<longrightarrow>
      isReady (fst (preloadImage env cache url)) url \<and>
      preloadImage env (fst (preloadImage env cache url)) url
        = (fst (preloadImage env cache url), Resolved, False)) \<and>
   (\<forall>other. other \<noteq> url \<longrightarrow> fst (preloadImage env cache url) other = cache other)"
  by (cases "env url"; cases "isReady cache url")
     (auto simp add: preloadImage_def isReady_def split: decode_result.splits)

theorem preloadImage_never_rejects_witness:
  "\<not> isReady Map.empty ''blob:a'' \<and>
   preloadImage (\<lambda>u. OnLoad DecodeOk) Map.empty ''blob:a''
     = ([''blob:a'' \<mapsto> \<lparr>img_src = ''blob:a'', complete = True, decoded = True\<rparr>],
        Resolved, True) \<and>
   isReady [''blob:a'' \<mapsto> \<lparr>img_src = ''blob:a'', complete = True, decoded = True\<rparr>] ''blob:a'' \<and>
   preloadImage (\<lambda>u. OnLoad DecodeOk)
       [''blob:a'' \<mapsto> \<lparr>img_src = ''blob:a'', complete = True, decoded = True\<rparr>] ''blob:a''
     = ([''blob:a'' \<mapsto> \<lparr>img_src = ''blob:a'', complete = True, decoded = True\<rparr>],
        Resolved, False) \<and>
   preloadImage (\<lambda>u. OnLoad DecodeFailed) Map.empty ''blob:a''
     = ([''blob:a'' \<mapsto> \<lparr>img_src = ''blob:a'', complete = True, decoded = False\<rparr>],
        Resolved, True) \<and>
   preloadImage (\<lambda>u. OnLoad DecodeFailed)
       [''blob:a'' \<mapsto> \<lparr>img_src = ''blob:a'', complete = True, decoded = False\<rparr>] ''blob:a''
     = ([''blob:a'' \<mapsto> \<lparr>img_src = ''blob:a'', complete = True, decoded = False\<rparr>],
        Resolved, False) \<and>
   preloadImage (\<lambda>u. OnError) Map.empty ''blob:a'' = (Map.empty, Resolved, True) \<and>
   fst (preloadImage (\<lambda>u. OnLoad DecodeOk)
          [''blob:b'' \<mapsto> \<lparr>img_src = ''blob:b'', complete = True, decoded = True\<rparr>] ''blob:a'')
       ''blob:b''
     = Some \<lparr>img_src = ''blob:b'', complete = True, decoded = True\<rparr>"
proof -
  let ?ok = "[''blob:a'' \<mapsto> \<lparr>img_src = ''blob:a'', complete = True, decoded = True\<rparr>]"
  let ?raw = "[''blob:a'' \<mapsto> \<lparr>img_src = ''blob:a'', complete = True, decoded = False\<rparr>]"
  let ?b = "[''blob:b'' \<mapsto> \<lparr>img_src = ''blob:b'', complete = True, decoded = True\<rparr>]"
  have h: "\<not> isReady Map.empty ''blob:a''" "isReady ?ok ''blob:a''" "isReady ?raw ''blob:a''"
    "\<not> isReady ?b ''blob:a''"
    by (simp_all add: isReady_def)
  have ne: "''blob:b'' \<noteq> ''blob:a''" by simp
  show ?thesis
    using h
      preloadImage_never_rejects [of "\<lambda>u. OnLoad DecodeOk" Map.empty "''blob:a''"]
      preloadImage_never_rejects [of "\<lambda>u. OnLoad DecodeFailed" Map.empty "''blob:a''"]
      preloadImage_never_rejects [of "\<lambda>u. OnError" Map.empty "''blob:a''"]
      preloadImage_never_rejects [of "\<lambda>u. OnLoad DecodeOk" ?ok "''blob:a''"]
      preloadImage_never_rejects [of "\<lambda>u. OnLoad DecodeFailed" ?raw "''blob:a''"]
      preloadImage_never_rejects [of "\<lambda>u. OnLoad DecodeOk" ?b "''blob:a''",
        THEN conjunct2, THEN conjunct2, THEN conjunct2, THEN conjunct2, THEN conjunct2,
        THEN conjunct2, rule_format, OF ne]
    by simp
qed

lemma preloadImage_error:
  "env url = OnError \<Longrightarrow> isReady (fst (preloadImage env cache url)) url = isReady cache url"
  by (simp add: preloadImage_def)

lemma switchImage_returns_ready:
  assumes "switchImage env cache url viewer nextActive = Some r"
  shows "isReady cache url \<or> env url \<noteq> OnError"
proof (rule switchImage.raw_induct
    [where P = "\<lambda>e c u v a r. isReady c u \<or> e u \<noteq> OnError", OF _ assms])
  fix sw :: "(string \<Rightarrow> load_event) \<Rightarrow> (string \<rightharpoonup> image) \<Rightarrow> string \<Rightarrow> viewer_data \<Rightarrow> nat
     \<Rightarrow> ((string \<rightharpoonup> image) \<times> viewer_data) option"
  fix e c u v a y
  assume ih: "\<And>e c u v a y. sw e c u v a = Some y \<Longrightarrow> isReady c u \<or> e u \<noteq> OnError"
    and step: "(if isReady c u
                then Some (c, v\<lparr>images := (images v)[a := u], currentActive := a\<rparr>)
                else sw e (fst (preloadImage e c u)) u v a) = Some y"
  show "isReady c u \<or> e u \<noteq> OnError"
  proof (cases "isReady c u")
    case True
    then show ?thesis by simp
  next
    case False
    with step have "sw e (fst (preloadImage e c u)) u v a = Some y" by simp
    from ih [OF this] have "isReady (fst (preloadImage e c u)) u \<or> e u \<noteq> OnError" .
    with False show ?thesis by (auto simp add: preloadImage_error)
  qed
qed

lemma switchImage_error_loops:
  "\<not> isReady cache url \<Longrightarrow> env url = OnError
    \<Longrightarrow> switchImage env cache url viewer nextActive = None"
  using switchImage_returns_ready [of env cache url viewer nextActive]
  by (cases "switchImage env cache url viewer nextActive") auto

lemma switchImageN_error:
  "\<not> isReady cache url \<Longrightarrow> env url = OnError
    \<Longrightarrow> switchImageN n env cache url viewer nextActive = None"
  by (induction n arbitrary: cache) (simp_all add: preloadImage_error)

lemma switchImage_loaded:
  "\<not> isReady cache url \<Longrightarrow> env url = OnLoad d \<Longrightarrow>
   \<exists>c. switchImage env cache url viewer nextActive =
     Some (c, viewer\<lparr>images := (images viewer)[nextActive := url], currentActive := nextActive\<rparr>)"
  by (subst switchImage.simps, simp, subst switchImage.simps)
     (auto simp add: preloadImage_def isReady_def split: decode_result.splits)

text \<open>
  C6: the retry of \<open>switchImage\<close> does not always end. For a locator whose image fires
  \<open>error\<close>, \<open>preloadImage\<close> resolves with nothing cached, the locator is still not ready,
  and the retry repeats: the swap is never reached, with any bound on the retries.
\<close>

theorem switchImage_load_error_never_swaps:
  "preloadImage (\<lambda>u. OnError) Map.empty ''blob:broken'' = (Map.empty, Resolved, True) \<and>
   switchImage (\<lambda>u. OnError) Map.empty ''blob:broken''
     \<lparr>images = [''blob:first'', ''''], currentActive = 0, currentFrame = 0,
      currentPosition = 0, filenameDisplay = ''first.jpg''\<rparr> 1 = None \<and>
   (\<forall>n. switchImageN n (\<lambda>u. OnError) Map.empty ''blob:broken''
     \<lparr>images = [''blob:first'', ''''], currentActive = 0, currentFrame = 0,
      currentPosition = 0, filenameDisplay = ''first.jpg''\<rparr> 1 = None)"
proof -
  have nr: "\<not> isReady Map.empty ''blob:broken''"
    by (simp add: isReady_def)
  have p: "preloadImage (\<lambda>u. OnError) Map.empty ''blob:broken'' = (Map.empty, Resolved, True)"
    by (simp add: preloadImage_def isReady_def)
  show ?thesis
    using nr p by (simp add: switchImage_error_loops switchImageN_error)
qed

section \<open>Fields the handlers leave alone\<close>

lemma createPositionMap_fields [simp]:
  "seriesData (createPositionMap s) = seriesData s"
  "activeViewers (createPositionMap s) = activeViewers s"
  "syncEnabled (createPositionMap s) = syncEnabled s"
  "syncMode (createPositionMap s) = syncMode s"
  "activeSeries (createPositionMap s) = activeSeries s"
  "lastWheelTime (createPositionMap s) = lastWheelTime s"
  "wheelDelta (createPositionMap s) = wheelDelta s"
  "isPlaying (createPositionMap s) = isPlaying s"
  "playInterval (createPositionMap s) = playInterval s"
  "playbackSpeed (createPositionMap s) = playbackSpeed s"
  "currentFrameIndex (createPositionMap s) = currentFrameIndex s"
  "effects (createPositionMap s) = effects s"
  by (simp_all add: createPositionMap_def Let_def)

lemma processSeriesFiles_fields [simp]:
  "seriesData (processSeriesFiles env n fs s) = AList.update n (buildSeries n fs) (seriesData s)"
  "activeViewers (processSeriesFiles env n fs s) = activeViewers s"
  "syncEnabled (processSeriesFiles env n fs s) = syncEnabled s"
  "syncMode (processSeriesFiles env n fs s) = syncMode s"
  "activeSeries (processSeriesFiles env n fs s) = activeSeries s"
  "lastWheelTime (processSeriesFiles env n fs s) = lastWheelTime s"
  "wheelDelta (processSeriesFiles env n fs s) = wheelDelta s"
  "isPlaying (processSeriesFiles env n fs s) = isPlaying s"
  "playInterval (processSeriesFiles env n fs s) = playInterval s"
  "playbackSpeed (processSeriesFiles env n fs s) = playbackSpeed s"
  "currentFrameIndex (processSeriesFiles env n fs s) = currentFrameIndex s"
  "effects (processSeriesFiles env n fs s) = effects s"
  by (simp_all add: processSeriesFiles_def Let_def)

lemma processAll_fields [simp]:
  "seriesData (foldl (\<lambda>st (n, fs). processSeriesFiles env n fs st) s gs)
     = foldl (\<lambda>sd (n, fs). AList.update n (buildSeries n fs) sd) (seriesData s) gs"
  "activeViewers (foldl (\<lambda>st (n, fs). processSeriesFiles env n fs st) s gs) = activeViewers s"
  "syncEnabled (foldl (\<lambda>st (n, fs). processSeriesFiles env n fs st) s gs) = syncEnabled s"
  "syncMode (foldl (\<lambda>st (n, fs). processSeriesFiles env n fs st) s gs) = syncMode s"
  "activeSeries (foldl (\<lambda>st (n, fs). processSeriesFiles env n fs st) s gs) = activeSeries s"
  "lastWheelTime (foldl (\<lambda>st (n, fs). processSeriesFiles env n fs st) s gs) = lastWheelTime s"
  "wheelDelta (foldl (\<lambda>st (n, fs). processSeriesFiles env n fs st) s gs) = wheelDelta s"
  "isPlaying (foldl (\<lambda>st (n, fs). processSeriesFiles env n fs st) s gs) = isPlaying s"
  "playInterval (foldl (\<lambda>st (n, fs). processSeriesFiles env n fs st) s gs) = playInterval s"
  "playbackSpeed (foldl (\<lambda>st (n, fs). processSeriesFiles env n fs st) s gs) = playbackSpeed s"
  "currentFrameIndex (foldl (\<lambda>st (n, fs). processSeriesFiles env n fs st) s gs) = currentFrameIndex s"
  "effects (foldl (\<lambda>st (n, fs). processSeriesFiles env n fs st) s gs) = effects s"
  by (induction gs arbitrary: s; simp add: case_prod_beta)+

lemma createSeriesViewers_fields [simp]:
  "seriesData (createSeriesViewers s) = seriesData s"
  "positionMap (createSeriesViewers s) = positionMap s"
  "syncEnabled (createSeriesViewers s) = syncEnabled s"
  "syncMode (createSeriesViewers s) = syncMode s"
  "activeSeries (createSeriesViewers s) = activeSeries s"
  "lastWheelTime (createSeriesViewers s) = lastWheelTime s"
  "wheelDelta (createSeriesViewers s) = wheelDelta s"
  "isPlaying (createSeriesViewers s) = isPlaying s"
  "playInterval (createSeriesViewers s) = playInterval s"
  "playbackSpeed (createSeriesViewers s) = playbackSpeed s"
  by (simp_all add: createSeriesViewers_def Let_def)

lemma handleFileSelect_fields [simp]:
  "syncEnabled (handleFileSelect env files s) = syncEnabled s"
  "syncMode (handleFileSelect env files s) = syncMode s"
  "lastWheelTime (handleFileSelect env files s) = lastWheelTime s"
  "wheelDelta (handleFileSelect env files s) = wheelDelta s"
  "isPlaying (handleFileSelect env files s) = isPlaying s"
  "playInterval (handleFileSelect env files s) = playInterval s"
  "playbackSpeed (handleFileSelect env files s) = playbackSpeed s"
  "activeSeries (handleFileSelect env files s) = (if files = [] then activeSeries s else None)"
  "seriesData (handleFileSelect env files s) =
     (if files = [] then seriesData s
      else foldl (\<lambda>sd (n, fs). AList.update n (buildSeries n fs) sd) [] (groupFiles files))"
  by (simp_all add: handleFileSelect_def Let_def)

lemma loadFile_fields [simp]:
  "syncEnabled (loadFile f s) = syncEnabled s"
  "syncMode (loadFile f s) = syncMode s"
  "activeSeries (loadFile f s) = activeSeries s"
  "lastWheelTime (loadFile f s) = lastWheelTime s"
  "wheelDelta (loadFile f s) = wheelDelta s"
  "isPlaying (loadFile f s) = isPlaying s"
  "playInterval (loadFile f s) = playInterval s"
  "playbackSpeed (loadFile f s) = playbackSpeed s"
  "positionMap (loadFile f s) = positionMap s"
  by (simp_all add: loadFile_def Let_def)

lemma showMinFrame_fields [simp]:
  "seriesData (showMinFrame s) = seriesData s"
  "positionMap (showMinFrame s) = positionMap s"
  "syncEnabled (showMinFrame s) = syncEnabled s"
  "syncMode (showMinFrame s) = syncMode s"
  "activeSeries (showMinFrame s) = activeSeries s"
  "lastWheelTime (showMinFrame s) = lastWheelTime s"
  "wheelDelta (showMinFrame s) = wheelDelta s"
  "isPlaying (showMinFrame s) = isPlaying s"
  "playInterval (showMinFrame s) = playInterval s"
  "playbackSpeed (showMinFrame s) = playbackSpeed s"
  by (simp_all add: showMinFrame_def Let_def split: list.splits)

lemma setSyncPosition_fields [simp]:
  "seriesData (setSyncPosition s) = seriesData s"
  "positionMap (setSyncPosition s) = positionMap s"
  "syncEnabled (setSyncPosition s) = syncEnabled s"
  "syncMode (setSyncPosition s) = Position"
  "activeSeries (setSyncPosition s) = activeSeries s"
  "map fst (activeViewers (setSyncPosition s)) = map fst (activeViewers s)"
  by (simp_all add: setSyncPosition_def Let_def)

lemma setSyncFrame_fields [simp]:
  "seriesData (setSyncFrame s) = seriesData s"
  "positionMap (setSyncFrame s) = positionMap s"
  "syncEnabled (setSyncFrame s) = syncEnabled s"
  "syncMode (setSyncFrame s) = Frame"
  "activeSeries (setSyncFrame s) = activeSeries s"
  by (simp_all add: setSyncFrame_def Let_def)

lemma setSyncEnabled_fields [simp]:
  "seriesData (setSyncEnabled b s) = seriesData s"
  "positionMap (setSyncEnabled b s) = positionMap s"
  "syncEnabled (setSyncEnabled b s) = b"
  "syncMode (setSyncEnabled b s) = syncMode s"
  "activeSeries (setSyncEnabled b s) = (if b then None else activeSeries s)"
  by (simp_all add: setSyncEnabled_def Let_def)

lemma handleSeriesSelect_fields [simp]:
  "syncEnabled (handleSeriesSelect n s) = syncEnabled s"
  "activeSeries (handleSeriesSelect n s) = (if syncEnabled s then activeSeries s else Some n)"
  by (simp_all add: handleSeriesSelect_def Let_def split: option.splits)

lemma handleWheelScroll_fields [simp]:
  "syncEnabled (handleWheelScroll now dy n s) = syncEnabled s"
  "activeSeries (handleWheelScroll now dy n s) = activeSeries s"
  by (simp_all add: handleWheelScroll_def Let_def)

lemma playback_fields [simp]:
  "syncEnabled (stopPlayback s) = syncEnabled s"
  "activeSeries (stopPlayback s) = activeSeries s"
  "syncEnabled (startPlayback now s) = syncEnabled s"
  "activeSeries (startPlayback now s) = activeSeries s"
  "syncEnabled (togglePlayback now s) = syncEnabled s"
  "activeSeries (togglePlayback now s) = activeSeries s"
  "syncEnabled (setPlaybackSpeed v now s) = syncEnabled s"
  "activeSeries (setPlaybackSpeed v now s) = activeSeries s"
  "syncEnabled (framePlayback pb time s) = syncEnabled s"
  "activeSeries (framePlayback pb time s) = activeSeries s"
  "syncEnabled (animationFrame time s) = syncEnabled s"
  "activeSeries (animationFrame time s) = activeSeries s"
  by (simp_all add: stopPlayback_def startPlayback_def togglePlayback_def setPlaybackSpeed_def
        framePlayback_def animationFrame_def Let_def split: option.splits)

section \<open>The position index\<close>

lemma completeSwitch_fields [simp]:
  "syncEnabled (completeSwitch n a u s) = syncEnabled s"
  "activeSeries (completeSwitch n a u s) = activeSeries s"
  by (simp_all add: completeSwitch_def split: option.splits)

lemma indexMapOf_snoc: "indexMapOf (ps @ [p]) = (indexMapOf ps)(p \<mapsto> int (length ps))"
  by (simp add: indexMapOf_def enumerate_append_eq)

lemma indexMapOf_Some:
  "indexMapOf ps p = Some i \<Longrightarrow> 0 \<le> i \<and> i < int (length ps) \<and> ps ! nat i = p"
proof (induction ps arbitrary: i rule: rev_induct)
  case Nil
  then show ?case by (simp add: indexMapOf_def)
next
  case (snoc x xs)
  show ?case
  proof (cases "p = x")
    case True
    with snoc.prems show ?thesis by (auto simp add: indexMapOf_snoc)
  next
    case False
    with snoc.prems have "indexMapOf xs p = Some i" by (simp add: indexMapOf_snoc)
    from snoc.IH [OF this] show ?thesis by (auto simp add: nth_append)
  qed
qed

lemma indexMapOf_None: "indexMapOf ps p = None \<longleftrightarrow> p \<notin> set ps"
  by (induction ps rule: rev_induct) (auto simp add: indexMapOf_def enumerate_append_eq)

lemma foldl_upd_other:
  "n \<notin> fst ` set xs \<Longrightarrow> foldl (\<lambda>m (k, sd). m(k \<mapsto> f sd)) m0 xs n = m0 n"
  by (induction xs arbitrary: m0) auto

lemma foldl_upd_lookup:
  "distinct (map fst xs) \<Longrightarrow> (n, sd) \<in> set xs
    \<Longrightarrow> foldl (\<lambda>m (k, sd). m(k \<mapsto> f sd)) m0 xs n = Some (f sd)"
proof (induction xs arbitrary: m0)
  case Nil
  then show ?case by simp
next
  case (Cons x xs)
  obtain k y where x: "x = (k, y)" by (cases x)
  show ?case
    unfolding x foldl.simps prod.case
  proof (cases "k = n \<and> y = sd")
    case True
    with Cons.prems x have notin: "n \<notin> fst ` set xs" by auto
    have "foldl (\<lambda>m (k, sd). m(k \<mapsto> f sd)) (m0(k \<mapsto> f y)) xs n = (m0(k \<mapsto> f y)) n"
      by (rule foldl_upd_other) (rule notin)
    also have "\<dots> = Some (f sd)"
      using True by (simp only: fun_upd_same)
    finally show "foldl (\<lambda>m (k, sd). m(k \<mapsto> f sd)) (m0(k \<mapsto> f y)) xs n = Some (f sd)" .
  next
    case False
    with Cons.prems x have "(n, sd) \<in> set xs" "distinct (map fst xs)" by auto
    then show "foldl (\<lambda>m (k, sd). m(k \<mapsto> f sd)) (m0(k \<mapsto> f y)) xs n = Some (f sd)"
      by (rule Cons.IH [rotated])
  qed
qed

lemma createPositionMap_built:
  "distinct (map fst (seriesData s)) \<Longrightarrow> positionIndexBuilt (createPositionMap s)"
  unfolding positionIndexBuilt_def
  by (auto simp add: createPositionMap_def Let_def globalPositionsOf_def foldl_upd_lookup)

lemma positionIndexBuilt_cong:
  "seriesData t = seriesData s \<Longrightarrow> positionMap t = positionMap s
    \<Longrightarrow> positionIndexBuilt t = positionIndexBuilt s"
  by (simp add: positionIndexBuilt_def globalPositionsOf_def)

lemma processSeriesFiles_built:
  "distinct (map fst (seriesData s)) \<Longrightarrow> positionIndexBuilt (processSeriesFiles env n fs s)"
  unfolding processSeriesFiles_def Let_def
  by (rule createPositionMap_built) (simp add: distinct_update)

lemma distinct_series_fold:
  "distinct (map fst sd)
    \<Longrightarrow> distinct (map fst (foldl (\<lambda>sd (n, fs). AList.update n (buildSeries n fs) sd) sd gs))"
  by (induction gs arbitrary: sd) (auto simp add: distinct_update)

lemma processAll_built:
  "distinct (map fst (seriesData s)) \<Longrightarrow> gs \<noteq> []
    \<Longrightarrow> positionIndexBuilt (foldl (\<lambda>st (n, fs). processSeriesFiles env n fs st) s gs)"
proof (induction gs rule: rev_induct)
  case Nil
  then show ?case by simp
next
  case (snoc g gs)
  obtain n fs where g: "g = (n, fs)" by (cases g)
  have "distinct (map fst (seriesData (foldl (\<lambda>st (n, fs). processSeriesFiles env n fs st) s gs)))"
    using snoc.prems(1) by (simp add: distinct_series_fold)
  then show ?case by (simp add: g processSeriesFiles_built)
qed

lemma update_nonempty: "AList.update k v g \<noteq> []"
  by (cases g) auto

lemma groupFiles_step_nonempty:
  "g \<noteq> [] \<Longrightarrow>
   foldl (\<lambda>g f. let n = fst (detectSeriesFromFileName (fname f))
                 in AList.update n ((case map_of g n of None \<Rightarrow> [] | Some fs \<Rightarrow> fs) @ [f]) g)
     g files \<noteq> []"
  by (induction files arbitrary: g) (simp_all add: Let_def update_nonempty)

lemma groupFiles_nonempty: "files \<noteq> [] \<Longrightarrow> groupFiles files \<noteq> []"
proof (cases files)
  case Nil
  then show "files \<noteq> [] \<Longrightarrow> groupFiles files \<noteq> []" by simp
next
  case (Cons a list)
  show "groupFiles files \<noteq> []"
    unfolding groupFiles_def Cons foldl.simps
    by (rule groupFiles_step_nonempty) (simp add: Let_def update_nonempty)
qed

lemma handleFileSelect_built:
  "files \<noteq> [] \<Longrightarrow> positionIndexBuilt (handleFileSelect env files s)"
proof -
  assume ne: "files \<noteq> []"
  let ?s0 = "s\<lparr>seriesData := [], activeViewers := [], imageCache := Map.empty, activeSeries := None\<rparr>"
  let ?s1 = "foldl (\<lambda>st (n, fs). processSeriesFiles env n fs st) ?s0 (groupFiles files)"
  have b: "positionIndexBuilt ?s1"
    by (rule processAll_built) (simp_all add: groupFiles_nonempty ne)
  have "positionIndexBuilt (showFrame 0 False None (createSeriesViewers ?s1)) = positionIndexBuilt ?s1"
    by (rule positionIndexBuilt_cong) simp_all
  with b show ?thesis using ne by (simp add: handleFileSelect_def Let_def)
qed

section \<open>Navigation settles every bound series\<close>

lemma resolveFrame_cong:
  "syncEnabled t = syncEnabled s \<Longrightarrow> syncMode t = syncMode s \<Longrightarrow> positionMap t = positionMap s
    \<Longrightarrow> resolveFrame t n sd k f = resolveFrame s n sd k f"
  by (simp add: resolveFrame_def cong: option.case_cong)

lemma updateSeriesFrame_other:
  "m \<noteq> n \<Longrightarrow> map_of (activeViewers (updateSeriesFrame m i f s)) n = map_of (activeViewers s) n"
  by (simp add: updateSeriesFrame_def Let_def update_conv' split: option.splits resolved.splits)

lemma updateSeriesFrame_same:
  assumes "map_of (activeViewers s) n = Some v" and "map_of (seriesData s) n = Some sd"
    and "resolveFrame s n sd i f = Display d"
  shows "\<exists>w. map_of (activeViewers (updateSeriesFrame n i f s)) n = Some w \<and> currentFrame w = d"
  using assms
  by (auto simp add: updateSeriesFrame_def Let_def update_conv' split: option.splits)

lemma updateSeriesFrame_resolve [simp]:
  "resolveFrame (updateSeriesFrame m i f s) n sd k g = resolveFrame s n sd k g"
  by (rule resolveFrame_cong) simp_all

lemma update_establishes: "seriesSettled k (updateSeriesFrame n k False s) n"
proof (cases "map_of (activeViewers s) n")
  case None
  then show ?thesis by (simp add: seriesSettled_def updateSeriesFrame_def)
next
  case (Some v)
  show ?thesis
  proof (cases "map_of (seriesData s) n")
    case None
    then show ?thesis by (simp add: seriesSettled_def)
  next
    case sd: (Some sd)
    show ?thesis
    proof (cases "resolveFrame s n sd k False")
      case (Display d)
      from updateSeriesFrame_same [OF Some sd Display] show ?thesis
        using sd Display by (auto simp add: seriesSettled_def)
    qed (simp_all add: seriesSettled_def sd)
  qed
qed

lemma update_preserves_settled:
  assumes "seriesSettled k s n"
  shows "seriesSettled k (updateSeriesFrame m k False s) n"
proof (cases "m = n")
  case True
  then show ?thesis by (simp add: update_establishes)
next
  case False
  with assms show ?thesis
    by (simp add: seriesSettled_def updateSeriesFrame_other)
qed

lemma updateAll_preserves_settled:
  "seriesSettled k s n \<Longrightarrow> seriesSettled k (foldl (\<lambda>st m. updateSeriesFrame m k False st) s ns) n"
  by (induction ns arbitrary: s) (simp_all add: update_preserves_settled)

lemma updateAll_establishes:
  "n \<in> set ns \<Longrightarrow> seriesSettled k (foldl (\<lambda>st m. updateSeriesFrame m k False st) s ns) n"
proof (induction ns arbitrary: s)
  case Nil
  then show ?case by simp
next
  case (Cons a ns)
  show ?case
  proof (cases "a = n")
    case True
    then show ?thesis
      by (simp add: updateAll_preserves_settled update_establishes)
  next
    case False
    with Cons.prems have "n \<in> set ns" by simp
    then show ?thesis using Cons.IH by simp
  qed
qed

lemma unbound_settled: "map_of (activeViewers s) n = None \<Longrightarrow> seriesSettled k s n"
  by (simp add: seriesSettled_def)

lemma seriesSettled_cong:
  "activeViewers t = activeViewers s \<Longrightarrow> seriesData t = seriesData s
    \<Longrightarrow> syncEnabled t = syncEnabled s \<Longrightarrow> syncMode t = syncMode s
    \<Longrightarrow> positionMap t = positionMap s \<Longrightarrow> seriesSettled k t n = seriesSettled k s n"
  by (simp add: seriesSettled_def resolveFrame_cong [of t s])

lemma showFrame_index:
  "currentFrameIndex (showFrame i l t s) =
     (let m = int (length (pm_positions (positionMap s)))
      in if l then (if i < 0 then m - 1 else if i \<ge> m then 0 else i)
         else max 0 (min i (m - 1)))"
  by (simp add: showFrame_def Let_def split: option.splits)

lemma showFrame_synced:
  "syncEnabled s \<Longrightarrow>
   showFrame i l t s =
     foldl (\<lambda>st n. updateSeriesFrame n (currentFrameIndex (showFrame i l t s)) False st)
       (s\<lparr>currentFrameIndex := currentFrameIndex (showFrame i l t s),
          viewPosition := nth_opt (pm_positions (positionMap s))
                            (currentFrameIndex (showFrame i l t s))\<rparr>)
       (map fst (activeViewers s))"
  by (simp add: showFrame_index) (simp add: showFrame_def Let_def)

lemma map_of_None_keys:
  "map fst xs = map fst ys \<Longrightarrow> (map_of xs n = None) = (map_of ys n = None)"
  by (metis map_of_eq_None_iff set_map)

lemma showFrame_settles:
  assumes "syncEnabled s"
  shows "settledAt (currentFrameIndex (showFrame i l t s)) (showFrame i l t s)"
  unfolding settledAt_def
proof
  fix n
  let ?k = "currentFrameIndex (showFrame i l t s)"
  let ?s1 = "s\<lparr>currentFrameIndex := ?k,
               viewPosition := nth_opt (pm_positions (positionMap s)) ?k\<rparr>"
  have eq: "showFrame i l t s
      = foldl (\<lambda>st n. updateSeriesFrame n ?k False st) ?s1 (map fst (activeViewers s))"
    by (rule showFrame_synced) (rule assms)
  show "seriesSettled ?k (showFrame i l t s) n"
  proof (cases "n \<in> set (map fst (activeViewers s))")
    case True
    then have "seriesSettled ?k (foldl (\<lambda>st n. updateSeriesFrame n ?k False st) ?s1
        (map fst (activeViewers s))) n"
      by (rule updateAll_establishes)
    with eq show ?thesis by simp
  next
    case False
    then have "map_of (activeViewers s) n = None"
      by (simp add: map_of_eq_None_iff)
    then have "map_of (activeViewers (showFrame i l t s)) n = None"
      using map_of_None_keys [OF showFrame_fields(12), of i l t s n] by simp
    then show ?thesis by (rule unbound_settled)
  qed
qed

lemma built_resolve:
  assumes "positionIndexBuilt s" and "syncEnabled s" and "syncMode s = Position"
    and "0 \<le> i" and "i < int (length (pm_positions (positionMap s)))"
    and "map_of (seriesData s) n = Some sd"
  shows "resolveFrame s n sd i f =
     Display (case indexMapOf (positions sd) (pm_positions (positionMap s) ! nat i) of
                None \<Rightarrow> 0 | Some j \<Rightarrow> j)"
proof -
  from assms(6) have "(n, sd) \<in> set (seriesData s)" by (rule map_of_SomeD)
  with assms(1) have "pm_series (positionMap s) n = Some (indexMapOf (positions sd))"
    by (auto simp add: positionIndexBuilt_def)
  with assms(2-5) show ?thesis
    by (simp add: resolveFrame_def nth_opt_def split: option.splits)
qed

lemma showFrame_position_viewer:
  assumes built: "positionIndexBuilt s" and sync: "syncEnabled s" and mode: "syncMode s = Position"
    and lo: "0 \<le> i" and hi: "i < int (length (pm_positions (positionMap s)))"
    and viewer: "map_of (activeViewers s) n = Some v"
    and series: "map_of (seriesData s) n = Some sd"
  shows "\<exists>w. map_of (activeViewers (showFrame i l t s)) n = Some w \<and>
           currentFrame w =
             (case indexMapOf (positions sd) (pm_positions (positionMap s) ! nat i) of
                None \<Rightarrow> 0 | Some j \<Rightarrow> j)"
proof -
  let ?s' = "showFrame i l t s"
  have idx: "currentFrameIndex ?s' = i"
    using lo hi by (simp add: showFrame_index Let_def)
  have "map_of (activeViewers ?s') n \<noteq> None"
    using map_of_None_keys [OF showFrame_fields(12), of i l t s n] viewer by simp
  then obtain w where w: "map_of (activeViewers ?s') n = Some w" by auto
  have b': "positionIndexBuilt ?s'"
    using built positionIndexBuilt_cong [of ?s' s] by simp
  have res: "resolveFrame ?s' n sd i False =
     Display (case indexMapOf (positions sd) (pm_positions (positionMap s) ! nat i) of
                None \<Rightarrow> 0 | Some j \<Rightarrow> j)"
    using built_resolve [OF b', of i n sd False] sync mode lo hi series by simp
  have "settledAt i ?s'"
    using showFrame_settles [OF sync, of i l t] idx by simp
  then have "seriesSettled i ?s' n" by (simp add: settledAt_def)
  with w series res have "currentFrame w =
      (case indexMapOf (positions sd) (pm_positions (positionMap s) ! nat i) of
                None \<Rightarrow> 0 | Some j \<Rightarrow> j)"
    by (simp add: seriesSettled_def)
  with w show ?thesis by blast
qed

section \<open>The example of the specification\<close>

lemma exampleGroups:
  "groupFiles exampleFiles = [(T1WI, exampleT1Files), (T2WI, exampleT2Files)]"
  by code_simp

lemma exampleSeries:
  "seriesData exampleView =
     [(T1WI, buildSeries T1WI exampleT1Files), (T2WI, buildSeries T2WI exampleT2Files)]"
proof -
  have "exampleFiles \<noteq> []" by (simp add: exampleFiles_def exampleT1Files_def)
  then show ?thesis
    unfolding exampleView_def by (simp add: exampleGroups)
qed

lemma exampleT1_positions: "positions (buildSeries T1WI exampleT1Files) = [0, 5, 10, 15, 20]"
  by code_simp

lemma exampleT2_positions: "positions (buildSeries T2WI exampleT2Files) = [0, 5, 10]"
  by code_simp

lemma exampleView_built: "positionIndexBuilt exampleView"
  unfolding exampleView_def
  by (rule handleFileSelect_built) (simp add: exampleFiles_def exampleT1Files_def)

lemma exampleView_positions: "pm_positions (positionMap exampleView) = [0, 5, 10, 15, 20]"
proof -
  have "pm_positions (positionMap exampleView) = globalPositionsOf exampleView"
    using exampleView_built by (simp add: positionIndexBuilt_def)
  also have "\<dots> = sort (uniqueElems ([0, 5, 10, 15, 20] @ [0, 5, 10]))"
    by (simp add: globalPositionsOf_def exampleSeries exampleT1_positions exampleT2_positions)
  also have "\<dots> = [0, 5, 10, 15, 20]"
    by code_simp
  finally show ?thesis .
qed

lemma createSeriesViewers_keys:
  "map fst (activeViewers (createSeriesViewers s)) =
     map fst (foldl (\<lambda>vs (n, sd). AList.update n (newViewer sd) vs) (activeViewers s)
                (sort_key (\<lambda>(n, sd). seriesSortNumber (sd_name sd)) (seriesData s)))"
  by (simp add: createSeriesViewers_def Let_def)

lemma handleFileSelect_keys:
  "files \<noteq> [] \<Longrightarrow>
   map fst (activeViewers (handleFileSelect env files s)) =
     map fst (foldl (\<lambda>vs (n, sd). AList.update n (newViewer sd) vs) []
                (sort_key (\<lambda>(n, sd). seriesSortNumber (sd_name sd))
                   (seriesData (handleFileSelect env files s))))"
  by (simp add: handleFileSelect_def Let_def createSeriesViewers_keys)

lemma exampleView_keys: "map fst (activeViewers exampleView) = [T1WI, T2WI]"
proof -
  have ne: "exampleFiles \<noteq> []" by (simp add: exampleFiles_def exampleT1Files_def)
  have "map fst (activeViewers exampleView) =
     map fst (foldl (\<lambda>vs (n, sd). AList.update n (newViewer sd) vs) []
                (sort_key (\<lambda>(n, sd). seriesSortNumber (sd_name sd))
                   [(T1WI, buildSeries T1WI exampleT1Files), (T2WI, buildSeries T2WI exampleT2Files)]))"
    using handleFileSelect_keys [OF ne, of "\<lambda>u. OnLoad DecodeOk" initialView]
    by (simp only: exampleView_def [symmetric] exampleSeries)
  also have "\<dots> = [T1WI, T2WI]"
    by code_simp
  finally show ?thesis .
qed

lemma example_bound:
  "n \<in> {T1WI, T2WI} \<Longrightarrow> \<exists>v. map_of (activeViewers (setSyncPosition exampleView)) n = Some v"
proof -
  assume n: "n \<in> {T1WI, T2WI}"
  have "map fst (activeViewers (setSyncPosition exampleView)) = [T1WI, T2WI]"
    by (simp add: exampleView_keys)
  with n have "n \<in> fst ` set (activeViewers (setSyncPosition exampleView))"
    by (metis list.set(1) list.set(2) set_map)
  then have "map_of (activeViewers (setSyncPosition exampleView)) n \<noteq> None"
    by (simp add: map_of_eq_None_iff)
  then show ?thesis by auto
qed

lemma example_position_state:
  "positionIndexBuilt (setSyncPosition exampleView)"
  "syncEnabled (setSyncPosition exampleView)"
  "syncMode (setSyncPosition exampleView) = Position"
  "pm_positions (positionMap (setSyncPosition exampleView)) = [0, 5, 10, 15, 20]"
  "map_of (seriesData (setSyncPosition exampleView)) T1WI = Some (buildSeries T1WI exampleT1Files)"
  "map_of (seriesData (setSyncPosition exampleView)) T2WI = Some (buildSeries T2WI exampleT2Files)"
proof -
  show "positionIndexBuilt (setSyncPosition exampleView)"
    using exampleView_built positionIndexBuilt_cong [of "setSyncPosition exampleView" exampleView]
    by simp
  show "syncEnabled (setSyncPosition exampleView)"
    by (simp add: exampleView_def initialView_def)
qed (simp_all add: exampleView_positions exampleSeries)

lemma example_lookups:
  "indexMapOf [0, 5, 10, 15, 20] 20 = Some 4"
  "indexMapOf [0, 5, 10] 20 = None"
  by (simp_all add: indexMapOf_None) code_simp

text \<open>
  C1: the example of the specification, evaluated. The two series loaded together give
  five global positions. In synced position mode at global index 4 the T1 series
  displays its frame index 4; the T2 series has no frame at position 20 and displays
  its frame index 0, the first frame, not its third.
\<close>

theorem example_position_sync_first_frame:
  "length (pm_positions (positionMap exampleView)) = 5 \<and>
   map_option currentFrame
     (map_of (activeViewers (showFrame 4 False None (setSyncPosition exampleView))) T1WI) = Some 4 \<and>
   map_option currentFrame
     (map_of (activeViewers (showFrame 4 False None (setSyncPosition exampleView))) T2WI) = Some 0"
proof -
  obtain v1 where v1: "map_of (activeViewers (setSyncPosition exampleView)) T1WI = Some v1"
    using example_bound [of T1WI] by auto
  obtain v2 where v2: "map_of (activeViewers (setSyncPosition exampleView)) T2WI = Some v2"
    using example_bound [of T2WI] by auto
  have r: "(0::int) \<le> 4" "4 < int (length (pm_positions (positionMap (setSyncPosition exampleView))))"
    by (simp_all add: exampleView_positions)
  from showFrame_position_viewer [OF example_position_state(1-3) r v1 example_position_state(5),
      of False None]
  have t1: "map_option currentFrame
     (map_of (activeViewers (showFrame 4 False None (setSyncPosition exampleView))) T1WI) = Some 4"
    by (auto simp add: exampleView_positions exampleT1_positions example_lookups)
  from showFrame_position_viewer [OF example_position_state(1-3) r v2 example_position_state(6),
      of False None]
  have t2: "map_option currentFrame
     (map_of (activeViewers (showFrame 4 False None (setSyncPosition exampleView))) T2WI) = Some 0"
    by (auto simp add: exampleView_positions exampleT2_positions example_lookups)
  from t1 t2 show ?thesis by (simp add: exampleView_positions)
qed

section \<open>Position synchronisation\<close>

text \<open>
  Where the position index is the one built from the series of the view, navigating to a
  valid global index in synced position mode leaves every bound series at a frame whose
  position equals the global position, if the series has one, and at frame index 0
  otherwise.
\<close>

lemma position_sync_when_built:
  assumes "positionIndexBuilt s" and "syncEnabled s" and "syncMode s = Position"
    and "0 \<le> i" and "i < int (length (pm_positions (positionMap s)))"
    and "map_of (activeViewers s) n = Some v"
    and "map_of (seriesData s) n = Some sd"
  shows "\<exists>w. map_of (activeViewers (showFrame i l t s)) n = Some w \<and>
           (if pm_positions (positionMap s) ! nat i \<in> set (positions sd)
            then 0 \<le> currentFrame w \<and> currentFrame w < int (length (positions sd)) \<and>
                 positions sd ! nat (currentFrame w) = pm_positions (positionMap s) ! nat i
            else currentFrame w = 0)"
proof -
  from showFrame_position_viewer [OF assms, of l t]
  obtain w where w: "map_of (activeViewers (showFrame i l t s)) n = Some w"
    and cf: "currentFrame w =
             (case indexMapOf (positions sd) (pm_positions (positionMap s) ! nat i) of
                None \<Rightarrow> 0 | Some j \<Rightarrow> j)"
    by blast
  let ?g = "pm_positions (positionMap s) ! nat i"
  show ?thesis
  proof (cases "indexMapOf (positions sd) ?g")
    case None
    then have "?g \<notin> set (positions sd)" by (simp add: indexMapOf_None)
    with w cf None show ?thesis by simp
  next
    case (Some j)
    then have "?g \<in> set (positions sd)"
      using indexMapOf_None [of "positions sd" ?g] by simp
    with w cf Some indexMapOf_Some [OF Some] show ?thesis by simp
  qed
qed


section \<open>Wrap-around and the wheel\<close>

text \<open>
  C3: with synchronisation enabled and at least one global position, at the last global
  index a step forward with wrap-around gives index 0 and without it leaves the index
  unchanged; at index 0 a step back with wrap-around gives the last index and without it
  leaves the index unchanged.
\<close>

theorem wrap_around_synced:
  assumes "syncEnabled s" and "pm_positions (positionMap s) \<noteq> []"
  shows "(currentFrameIndex s = int (length (pm_positions (positionMap s))) - 1 \<longrightarrow>
            currentFrameIndex (showNextFrame True t s) = 0 \<and>
            currentFrameIndex (showNextFrame False t s) = currentFrameIndex s) \<and>
         (currentFrameIndex s = 0 \<longrightarrow>
            currentFrameIndex (showPreviousFrame True t s)
              = int (length (pm_positions (positionMap s))) - 1 \<and>
            currentFrameIndex (showPreviousFrame False t s) = currentFrameIndex s)"
  using assms
  by (cases "pm_positions (positionMap s)")
     (simp_all add: showNextFrame_def showPreviousFrame_def showFrame_index Let_def)

lemma handleFileSelect_index:
  "files \<noteq> [] \<Longrightarrow> currentFrameIndex (handleFileSelect env files s) = 0"
  by (simp add: handleFileSelect_def Let_def showFrame_index)

lemma exampleView_sync:
  "syncEnabled exampleView" "currentFrameIndex exampleView = 0"
  "lastWheelTime exampleView = 0" "wheelDelta exampleView = 0"
  "syncMode exampleView = Frame" "activeSeries exampleView = None"
  unfolding exampleView_def
  by (simp_all add: initialView_def handleFileSelect_index exampleFiles_def exampleT1Files_def)

theorem wrap_around_synced_witness:
  "syncEnabled exampleView \<and> pm_positions (positionMap exampleView) \<noteq> [] \<and>
   currentFrameIndex exampleView = 0 \<and>
   currentFrameIndex (showPreviousFrame True None exampleView) = 4 \<and>
   currentFrameIndex (showPreviousFrame False None exampleView) = 0 \<and>
   currentFrameIndex (showFrame 4 False None exampleView) = 4 \<and>
   currentFrameIndex (showNextFrame True None (showFrame 4 False None exampleView)) = 0 \<and>
   currentFrameIndex (showNextFrame False None (showFrame 4 False None exampleView)) = 4"
proof -
  have s: "syncEnabled exampleView" by (rule exampleView_sync)
  have p: "pm_positions (positionMap exampleView) \<noteq> []" by (simp add: exampleView_positions)
  have i: "currentFrameIndex (showFrame 4 False None exampleView) = 4"
    by (simp add: showFrame_index exampleView_positions)
  have s4: "syncEnabled (showFrame 4 False None exampleView)" using s by simp
  have p4: "pm_positions (positionMap (showFrame 4 False None exampleView)) \<noteq> []"
    using p by simp
  show ?thesis
    using s p i exampleView_sync(2) wrap_around_synced [OF s p, of None]
      wrap_around_synced [OF s4 p4, of None]
    by (simp add: exampleView_positions)
qed

text \<open>
  C10: the throttle time stamp and the delta accumulator of the wheel are one pair for the
  whole view. An event on any series less than 30 ms after the last accepted event, on
  whichever series that was, changes nothing; an accepted event adds its delta to the one
  accumulator, and the navigation that the accumulated deltas of several series trigger
  goes to the series of the last event and resets the accumulator.
\<close>

theorem wheel_throttle_shared:
  "(now - lastWheelTime s < 30 \<longrightarrow> handleWheelScroll now dy n s = s) \<and>
   (now - lastWheelTime s \<ge> 30 \<longrightarrow>
      lastWheelTime (handleWheelScroll now dy n s) = now \<and>
      wheelDelta (handleWheelScroll now dy n s)
        = (if \<bar>wheelDelta s + dy\<bar> > 30 then 0 else wheelDelta s + dy)) \<and>
   (now - lastWheelTime s \<ge> 30 \<and> now2 - now < 30 \<longrightarrow>
      handleWheelScroll now2 dy2 n2 (handleWheelScroll now dy n s)
        = handleWheelScroll now dy n s) \<and>
   (now - lastWheelTime s \<ge> 30 \<and> now2 - now \<ge> 30 \<and> \<bar>wheelDelta s + dy\<bar> \<le> 30 \<longrightarrow>
      handleWheelScroll now2 dy2 n2 (handleWheelScroll now dy n s)
        = (if \<bar>wheelDelta s + dy + dy2\<bar> > 30 then
             (if wheelDelta s + dy + dy2 > 0
              then showNextFrame True (Some n2)
                     (s\<lparr>lastWheelTime := now2, wheelDelta := wheelDelta s + dy + dy2\<rparr>)
              else showPreviousFrame True (Some n2)
                     (s\<lparr>lastWheelTime := now2, wheelDelta := wheelDelta s + dy + dy2\<rparr>))
             \<lparr>wheelDelta := 0\<rparr>
           else s\<lparr>lastWheelTime := now2, wheelDelta := wheelDelta s + dy + dy2\<rparr>))"
  by (simp add: handleWheelScroll_def Let_def)

theorem wheel_throttle_shared_witness:
  "(1000::int) - lastWheelTime exampleView \<ge> 30 \<and>
   handleWheelScroll 1010 15 T2WI (handleWheelScroll 1000 20 T1WI exampleView)
     = handleWheelScroll 1000 20 T1WI exampleView \<and>
   handleWheelScroll 1040 15 T2WI (handleWheelScroll 1000 20 T1WI exampleView)
     = (showNextFrame True (Some T2WI) (exampleView\<lparr>lastWheelTime := 1040, wheelDelta := 35\<rparr>))
       \<lparr>wheelDelta := 0\<rparr>"
  using wheel_throttle_shared [of 1000 exampleView 20 T1WI 1010 15 T2WI]
    wheel_throttle_shared [of 1000 exampleView 20 T1WI 1040 15 T2WI]
  by (simp add: exampleView_sync)

section \<open>Navigating twice to the same index\<close>

lemma transitions_fields [simp]:
  "transitions (s\<lparr>currentFrameIndex := a\<rparr>) = transitions s"
  "transitions (s\<lparr>viewPosition := b\<rparr>) = transitions s"
  "transitions (s\<lparr>effects := effects s @ [Rejected n]\<rparr>) = transitions s"
  "transitions (s\<lparr>effects := effects s @ [SwitchImage n k u]\<rparr>)
     = transitions s @ [SwitchImage n k u]"
  by (simp_all add: transitions_def)

lemma update_settled_noop:
  assumes "seriesSettled k s n"
  shows "activeViewers (updateSeriesFrame n k False s) = activeViewers s \<and>
         transitions (updateSeriesFrame n k False s) = transitions s"
  using assms
  by (auto simp add: updateSeriesFrame_def seriesSettled_def transitions_def
        split: option.splits resolved.splits)

lemma updateAll_settled_noop:
  "settledAt k s \<Longrightarrow>
   activeViewers (foldl (\<lambda>st m. updateSeriesFrame m k False st) s ns) = activeViewers s \<and>
   transitions (foldl (\<lambda>st m. updateSeriesFrame m k False st) s ns) = transitions s"
proof (induction ns arbitrary: s)
  case Nil
  then show ?case by simp
next
  case (Cons a ns)
  have "settledAt k (updateSeriesFrame a k False s)"
    using Cons.prems by (simp add: settledAt_def update_preserves_settled)
  from Cons.IH [OF this] update_settled_noop [of k s a] Cons.prems
  show ?case by (simp add: settledAt_def)
qed

lemma showFrame_settled_noop:
  assumes sync: "syncEnabled s" and st: "settledAt k s"
    and k: "currentFrameIndex (showFrame i l t s) = k"
  shows "activeViewers (showFrame i l t s) = activeViewers s \<and>
         transitions (showFrame i l t s) = transitions s"
proof -
  let ?s1 = "s\<lparr>currentFrameIndex := k,
               viewPosition := nth_opt (pm_positions (positionMap s)) k\<rparr>"
  have eq: "showFrame i l t s
      = foldl (\<lambda>st n. updateSeriesFrame n k False st) ?s1 (map fst (activeViewers s))"
    using showFrame_synced [OF sync, of i l t] k by simp
  have "settledAt k ?s1"
    using st seriesSettled_cong [of ?s1 s k] by (simp add: settledAt_def)
  from updateAll_settled_noop [OF this, of "map fst (activeViewers s)"] eq
  show ?thesis by simp
qed

lemma renavigate_synced_idempotent:
  assumes "syncEnabled s"
  shows "activeViewers (renavigate t (renavigate t s)) = activeViewers (renavigate t s) \<and>
         transitions (renavigate t (renavigate t s)) = transitions (renavigate t s)"
proof -
  let ?s1 = "renavigate t s"
  let ?k = "currentFrameIndex ?s1"
  have s1: "syncEnabled ?s1" using assms by (simp add: renavigate_def)
  have st: "settledAt ?k ?s1"
    unfolding renavigate_def by (rule showFrame_settles) (rule assms)
  have k: "currentFrameIndex (showFrame ?k False t ?s1) = ?k"
    by (simp add: showFrame_index renavigate_def Let_def)
  from showFrame_settled_noop [OF s1 st k] show ?thesis
    by (simp add: renavigate_def)
qed

lemma forced_update_switches:
  assumes "\<not> syncEnabled s" and "map_of (activeViewers s) n = Some v"
    and "map_of (seriesData s) n = Some sd" and "frames sd \<noteq> []" and "0 \<le> k"
  shows "\<exists>a u. transitions (updateSeriesFrame n k True s) = transitions s @ [SwitchImage n a u]"
proof -
  let ?d = "min k (int (length (frames sd)) - 1)"
  have d: "0 \<le> ?d" "?d < int (length (frames sd))"
    using assms(4,5) by (cases "frames sd"; simp)+
  then obtain fr where fr: "nth_opt (frames sd) ?d = Some fr"
    by (simp add: nth_opt_def)
  show ?thesis
    using assms(1-3) fr
    by (simp add: updateSeriesFrame_def resolveFrame_def Let_def transitions_def)
qed

lemma showFrame_unsynced_target:
  assumes "\<not> syncEnabled s" and "map_of (activeViewers s) n = Some v"
    and "map_of (seriesData s) n = Some sd" and "frames sd \<noteq> []"
  shows "\<exists>a u. transitions (showFrame i False (Some n) s) = transitions s @ [SwitchImage n a u]"
proof -
  let ?k = "max 0 (min i (int (length (pm_positions (positionMap s))) - 1))"
  let ?s1 = "s\<lparr>currentFrameIndex := ?k,
               viewPosition := nth_opt (pm_positions (positionMap s)) ?k\<rparr>"
  have eq: "showFrame i False (Some n) s = updateSeriesFrame n ?k True ?s1"
    using assms(1) by (simp add: showFrame_def Let_def)
  have "\<exists>a u. transitions (updateSeriesFrame n ?k True ?s1) = transitions ?s1 @ [SwitchImage n a u]"
    by (rule forced_update_switches [where v = v and sd = sd]) (use assms in simp_all)
  with eq show ?thesis by simp
qed

lemma showFrame_unsynced_none:
  "\<not> syncEnabled s \<Longrightarrow>
   activeViewers (showFrame i l None s) = activeViewers s \<and>
   transitions (showFrame i l None s) = transitions s"
  by (simp add: showFrame_def Let_def)

lemma bound_after_showFrame:
  "map_of (activeViewers s) n = Some v \<Longrightarrow> \<exists>w. map_of (activeViewers (showFrame i l t s)) n = Some w"
  using map_of_None_keys [OF showFrame_fields(12), of i l t s n] by auto

text \<open>
  C4, as the code has it: with synchronisation enabled, navigating to the current index a
  second time triggers no transition; with synchronisation disabled and no target nothing
  is updated, the first time or the second; with synchronisation disabled and a bound
  target, the navigation forces the refresh and each call triggers one more transition;
  and an update that is not forced and resolves to the frame already displayed changes
  nothing.
\<close>

theorem renavigation_transitions:
  "(syncEnabled s \<longrightarrow>
      transitions (renavigate t (renavigate t s)) = transitions (renavigate t s)) \<and>
   (\<not> syncEnabled s \<longrightarrow>
      transitions (renavigate None (renavigate None s)) = transitions (renavigate None s)) \<and>
   (\<not> syncEnabled s \<and> map_of (activeViewers s) n = Some v \<and>
    map_of (seriesData s) n = Some sd \<and> frames sd \<noteq> [] \<longrightarrow>
      length (transitions (renavigate (Some n) (renavigate (Some n) s)))
        = Suc (length (transitions (renavigate (Some n) s)))) \<and>
   (map_of (activeViewers s) n = Some v \<and> map_of (seriesData s) n = Some sd \<and>
    resolveFrame s n sd i False = Display (currentFrame v) \<longrightarrow>
      updateSeriesFrame n i False s = s)"
proof (intro conjI impI)
  assume "syncEnabled s"
  then show "transitions (renavigate t (renavigate t s)) = transitions (renavigate t s)"
    by (simp add: renavigate_synced_idempotent)
next
  assume "\<not> syncEnabled s"
  then show "transitions (renavigate None (renavigate None s)) = transitions (renavigate None s)"
    by (simp add: renavigate_def showFrame_unsynced_none)
next
  assume a: "\<not> syncEnabled s \<and> map_of (activeViewers s) n = Some v \<and>
    map_of (seriesData s) n = Some sd \<and> frames sd \<noteq> []"
  let ?s1 = "renavigate (Some n) s"
  from a obtain w where w: "map_of (activeViewers ?s1) n = Some w"
    unfolding renavigate_def using bound_after_showFrame by blast
  have "\<exists>a u. transitions (showFrame (currentFrameIndex ?s1) False (Some n) ?s1)
      = transitions ?s1 @ [SwitchImage n a u]"
    by (rule showFrame_unsynced_target [where v = w and sd = sd])
       (use a w in \<open>simp_all add: renavigate_def\<close>)
  then show "length (transitions (renavigate (Some n) (renavigate (Some n) s)))
        = Suc (length (transitions (renavigate (Some n) s)))"
    by (auto simp add: renavigate_def)
next
  assume "map_of (activeViewers s) n = Some v \<and> map_of (seriesData s) n = Some sd \<and>
    resolveFrame s n sd i False = Display (currentFrame v)"
  then show "updateSeriesFrame n i False s = s"
    by (simp add: updateSeriesFrame_def)
qed

lemma exampleView_reachable: "reachable exampleView"
proof -
  have "reachable (handle (FileSelect (\<lambda>u. OnLoad DecodeOk) exampleFiles) initialView)"
    by (rule reachable_step) (rule reachable_init)
  then show ?thesis by (simp add: exampleView_def)
qed

lemma exampleT1_frames: "frames (buildSeries T1WI exampleT1Files) \<noteq> []"
proof -
  have "map position (frames (buildSeries T1WI exampleT1Files)) = [0, 5, 10, 15, 20]"
    using exampleT1_positions by (simp add: buildSeries_def Let_def)
  then show ?thesis by auto
qed

lemma example_unsynced_state:
  "\<not> syncEnabled (setSyncEnabled False exampleView)"
  "\<exists>v. map_of (activeViewers (setSyncEnabled False exampleView)) T1WI = Some v"
  "map_of (seriesData (setSyncEnabled False exampleView)) T1WI
     = Some (buildSeries T1WI exampleT1Files)"
proof -
  have "map fst (activeViewers (setSyncEnabled False exampleView)) = [T1WI, T2WI]"
    by (simp add: setSyncEnabled_def exampleView_keys)
  then have "T1WI \<in> fst ` set (activeViewers (setSyncEnabled False exampleView))"
    by (metis list.set_intros(1) set_map)
  then have "map_of (activeViewers (setSyncEnabled False exampleView)) T1WI \<noteq> None"
    by (simp add: map_of_eq_None_iff)
  then show "\<exists>v. map_of (activeViewers (setSyncEnabled False exampleView)) T1WI = Some v"
    by auto
qed (simp_all add: exampleSeries)

text \<open>
  C4 as stated fails with synchronisation disabled: in the state reached by selecting the
  example files and switching synchronisation off, navigating to the current index with
  target T1WI a second time triggers a transition again.
\<close>

theorem unsynced_renavigation_fires_again:
  "reachable (setSyncEnabled False exampleView) \<and>
   \<not> syncEnabled (setSyncEnabled False exampleView) \<and>
   transitions (renavigate (Some T1WI) (renavigate (Some T1WI) (setSyncEnabled False exampleView)))
     \<noteq> transitions (renavigate (Some T1WI) (setSyncEnabled False exampleView))"
proof -
  let ?u = "setSyncEnabled False exampleView"
  let ?u1 = "renavigate (Some T1WI) ?u"
  have "reachable (handle (SyncEnableCheckbox False) exampleView)"
    by (rule reachable_step) (rule exampleView_reachable)
  then have r: "reachable ?u" by simp
  obtain v where v: "map_of (activeViewers ?u) T1WI = Some v"
    using example_unsynced_state(2) by blast
  then obtain w where w: "map_of (activeViewers ?u1) T1WI = Some w"
    unfolding renavigate_def using bound_after_showFrame by blast
  have "\<exists>a u. transitions (showFrame (currentFrameIndex ?u1) False (Some T1WI) ?u1)
      = transitions ?u1 @ [SwitchImage T1WI a u]"
    by (rule showFrame_unsynced_target [where v = w and sd = "buildSeries T1WI exampleT1Files"])
       (use w exampleT1_frames in \<open>simp_all add: renavigate_def exampleSeries\<close>)
  then have "transitions (renavigate (Some T1WI) ?u1) \<noteq> transitions ?u1"
    by (auto simp add: renavigate_def)
  with r show ?thesis by simp
qed

lemma handleFileSelect_settled:
  assumes "files \<noteq> []" and "syncEnabled s"
  shows "settledAt 0 (handleFileSelect env files s)"
proof -
  let ?s' = "createSeriesViewers
     (foldl (\<lambda>st (n, fs). processSeriesFiles env n fs st)
        (s\<lparr>seriesData := [], activeViewers := [], imageCache := Map.empty, activeSeries := None\<rparr>)
        (groupFiles files))"
  have eq: "handleFileSelect env files s = showFrame 0 False None ?s'"
    using assms(1) by (simp add: handleFileSelect_def Let_def)
  have sync: "syncEnabled ?s'" using assms(2) by simp
  have "currentFrameIndex (showFrame 0 False None ?s') = 0"
    by (simp add: showFrame_index Let_def)
  with showFrame_settles [OF sync, of 0 False None] eq show ?thesis by simp
qed

theorem renavigation_transitions_witness:
  "syncEnabled exampleView \<and>
   transitions (renavigate (Some T1WI) (renavigate (Some T1WI) exampleView))
     = transitions (renavigate (Some T1WI) exampleView) \<and>
   \<not> syncEnabled (setSyncEnabled False exampleView) \<and>
   transitions (renavigate None (renavigate None (setSyncEnabled False exampleView)))
     = transitions (renavigate None (setSyncEnabled False exampleView)) \<and>
   (\<exists>v. map_of (activeViewers (setSyncEnabled False exampleView)) T1WI = Some v) \<and>
   map_of (seriesData (setSyncEnabled False exampleView)) T1WI
     = Some (buildSeries T1WI exampleT1Files) \<and>
   frames (buildSeries T1WI exampleT1Files) \<noteq> [] \<and>
   length (transitions
       (renavigate (Some T1WI) (renavigate (Some T1WI) (setSyncEnabled False exampleView))))
     = Suc (length (transitions (renavigate (Some T1WI) (setSyncEnabled False exampleView)))) \<and>
   (\<exists>v. map_of (activeViewers exampleView) T1WI = Some v \<and>
        map_of (seriesData exampleView) T1WI = Some (buildSeries T1WI exampleT1Files) \<and>
        resolveFrame exampleView T1WI (buildSeries T1WI exampleT1Files) 0 False
          = Display (currentFrame v)) \<and>
   updateSeriesFrame T1WI 0 False exampleView = exampleView"
proof -
  let ?u = "setSyncEnabled False exampleView"
  let ?sd = "buildSeries T1WI exampleT1Files"
  obtain v where v: "map_of (activeViewers ?u) T1WI = Some v"
    using example_unsynced_state(2) by blast
  have "map_of (activeViewers exampleView) T1WI \<noteq> None"
    using exampleView_keys by (metis list.set_intros(1) map_of_eq_None_iff set_map)
  then obtain w where w: "map_of (activeViewers exampleView) T1WI = Some w" by auto
  have sd: "map_of (seriesData exampleView) T1WI = Some ?sd"
    by (simp add: exampleSeries)
  have res: "resolveFrame exampleView T1WI ?sd 0 False
      = Display (min 0 (int (length (frames ?sd)) - 1))"
    by (simp add: resolveFrame_def exampleView_sync)
  have "settledAt 0 exampleView"
    unfolding exampleView_def
    by (rule handleFileSelect_settled)
       (simp_all add: exampleFiles_def exampleT1Files_def initialView_def)
  then have "seriesSettled 0 exampleView T1WI" by (simp add: settledAt_def)
  with w sd res have cf: "currentFrame w = min 0 (int (length (frames ?sd)) - 1)"
    by (simp add: seriesSettled_def)
  with res have res': "resolveFrame exampleView T1WI ?sd 0 False = Display (currentFrame w)"
    by simp
  show ?thesis
    using renavigation_transitions [of exampleView "Some T1WI" T1WI w ?sd 0]
      renavigation_transitions [of ?u None T1WI v ?sd 0]
      exampleView_sync(1) example_unsynced_state v w sd res' exampleT1_frames
    by auto
qed

section \<open>Rebuilding the position index\<close>

lemma globalPositionsOf_strict:
  "sorted_wrt (<) (globalPositionsOf s) \<and>
   set (globalPositionsOf s) = (\<Union>(n, sd) \<in> set (seriesData s). set (positions sd))"
  by (auto simp add: globalPositionsOf_def uniqueElems_def strict_sorted_iff)

lemma handleFileSelect_positions:
  assumes "files \<noteq> []"
  shows "sorted_wrt (<) (pm_positions (positionMap (handleFileSelect env files s))) \<and>
         set (pm_positions (positionMap (handleFileSelect env files s)))
           = (\<Union>(n, sd) \<in> set (seriesData (handleFileSelect env files s)). set (positions sd))"
proof -
  have "pm_positions (positionMap (handleFileSelect env files s))
      = globalPositionsOf (handleFileSelect env files s)"
    using handleFileSelect_built [OF assms, of env s] by (simp add: positionIndexBuilt_def)
  then show ?thesis using globalPositionsOf_strict by simp
qed

lemma loadFile_series:
  "seriesData (loadFile f s) =
     AList.update (fst (detectSeriesFromFileName (fname f)))
       \<lparr>sd_name = fst (detectSeriesFromFileName (fname f)),
        frames = [\<lparr>fr_name = fname f, fr_url = furl f, frameNumber = 0, position = 0\<rparr>],
        sliceThickness = 5, sliceSpacing = 5, positions = [0]\<rparr> (seriesData s)"
  by (simp add: loadFile_def Let_def)

lemma detect_T1_01: "detectSeriesFromFileName ''T1_01.jpg'' = (T1WI, 1)"
  by code_simp

text \<open>
  C8: \<open>loadFile\<close> does not rebuild the position index. Loading one file into a fresh view
  gives a series with a frame at position 0, while the global positions stay empty and
  the series has no lookup table. (After a batch selection the index is the one built
  from the series: \<open>handleFileSelect_built\<close>, \<open>handleFileSelect_positions\<close>.)
\<close>

theorem loadFile_position_index_stale:
  "map (\<lambda>(n, sd). (n, positions sd))
     (seriesData (loadFile \<lparr>fname = ''T1_01.jpg'', furl = ''blob:1''\<rparr> initialView))
     = [(T1WI, [0])] \<and>
   globalPositionsOf (loadFile \<lparr>fname = ''T1_01.jpg'', furl = ''blob:1''\<rparr> initialView) = [0] \<and>
   pm_positions (positionMap (loadFile \<lparr>fname = ''T1_01.jpg'', furl = ''blob:1''\<rparr> initialView))
     = [] \<and>
   pm_series (positionMap (loadFile \<lparr>fname = ''T1_01.jpg'', furl = ''blob:1''\<rparr> initialView)) T1WI
     = None"
proof -
  let ?s = "loadFile \<lparr>fname = ''T1_01.jpg'', furl = ''blob:1''\<rparr> initialView"
  have sd: "seriesData ?s =
     [(T1WI, \<lparr>sd_name = T1WI,
        frames = [\<lparr>fr_name = ''T1_01.jpg'', fr_url = ''blob:1'', frameNumber = 0, position = 0\<rparr>],
        sliceThickness = 5, sliceSpacing = 5, positions = [0]\<rparr>)]"
    by (simp add: loadFile_series detect_T1_01 initialView_def)
  have g: "globalPositionsOf ?s = [0]"
    by (simp add: globalPositionsOf_def sd uniqueElems_def)
  have p: "pm_positions (positionMap ?s) = []" "pm_series (positionMap ?s) T1WI = None"
    by (simp_all add: initialView_def)
  from sd g p show ?thesis by simp
qed

lemma loadFile_not_built:
  "\<not> positionIndexBuilt (loadFile \<lparr>fname = ''T1_01.jpg'', furl = ''blob:1''\<rparr> initialView)"
proof -
  let ?s = "loadFile \<lparr>fname = ''T1_01.jpg'', furl = ''blob:1''\<rparr> initialView"
  have "seriesData ?s =
     [(T1WI, \<lparr>sd_name = T1WI,
        frames = [\<lparr>fr_name = ''T1_01.jpg'', fr_url = ''blob:1'', frameNumber = 0, position = 0\<rparr>],
        sliceThickness = 5, sliceSpacing = 5, positions = [0]\<rparr>)]"
    by (simp add: loadFile_series detect_T1_01 initialView_def)
  then have "globalPositionsOf ?s = [0]"
    by (simp add: globalPositionsOf_def uniqueElems_def)
  moreover have "pm_positions (positionMap ?s) = []"
    by (simp add: initialView_def)
  ultimately show ?thesis
    by (simp add: positionIndexBuilt_def)
qed

section \<open>Enabling synchronisation\<close>

lemma handle_keeps_selection_clear:
  "(syncEnabled s \<longrightarrow> activeSeries s = None)
    \<Longrightarrow> (syncEnabled (handle e s) \<longrightarrow> activeSeries (handle e s) = None)"
  by (cases e) simp_all

lemma reachable_selection_clear: "reachable s \<Longrightarrow> syncEnabled s \<Longrightarrow> activeSeries s = None"
proof (induction rule: reachable.induct)
  case reachable_init
  then show ?case by (simp add: initialView_def)
next
  case (reachable_step s e)
  then show ?case using handle_keeps_selection_clear [of s e] by blast
qed

lemma showMinFrame_index:
  "activeViewers s \<noteq> [] \<Longrightarrow>
   currentFrameIndex (showMinFrame s)
     = clampIndex s (Min (set (map (\<lambda>(n, v). currentFrame v) (activeViewers s))))"
  by (cases "activeViewers s")
     (simp_all add: showMinFrame_def showFrame_index clampIndex_def Let_def Min.set_eq_fold
        del: set_simps)

text \<open>
  C9: enabling synchronisation clears the active series selection and sets the global
  frame index to the minimum current frame of the viewers (re-navigating clamps it to the
  valid indices, which leaves a minimum that is a valid index as it is); in every
  reachable state with synchronisation enabled no series is selected, and a click on a
  series while synchronisation is enabled changes nothing.
\<close>

theorem sync_enable_clears_selection:
  "activeSeries (setSyncEnabled True s) = None \<and>
   (activeViewers s \<noteq> [] \<longrightarrow>
      currentFrameIndex (setSyncEnabled True s)
        = clampIndex s (Min (set (map (\<lambda>(n, v). currentFrame v) (activeViewers s))))) \<and>
   (activeViewers s \<noteq> [] \<and>
    0 \<le> Min (set (map (\<lambda>(n, v). currentFrame v) (activeViewers s))) \<and>
    Min (set (map (\<lambda>(n, v). currentFrame v) (activeViewers s)))
      < int (length (pm_positions (positionMap s))) \<longrightarrow>
      currentFrameIndex (setSyncEnabled True s)
        = Min (set (map (\<lambda>(n, v). currentFrame v) (activeViewers s)))) \<and>
   (reachable s \<and> syncEnabled s \<longrightarrow> activeSeries s = None) \<and>
   (syncEnabled s \<longrightarrow> handleSeriesSelect n s = s)"
proof -
  have idx: "activeViewers s \<noteq> [] \<Longrightarrow>
      currentFrameIndex (setSyncEnabled True s)
        = clampIndex s (Min (set (map (\<lambda>(n, v). currentFrame v) (activeViewers s))))"
    using showMinFrame_index [of "s\<lparr>syncEnabled := True, activeSeries := None\<rparr>"]
    by (simp add: setSyncEnabled_def clampIndex_def)
  show ?thesis
    using idx reachable_selection_clear [of s]
    by (auto simp add: clampIndex_def handleSeriesSelect_def)
qed

lemma frame_mode_settled:
  assumes "syncEnabled s" and "syncMode s = Frame"
    and "\<forall>(n, v) \<in> set (activeViewers s). currentFrame v = 0"
    and "\<forall>(n, sd) \<in> set (seriesData s). frames sd \<noteq> []"
  shows "settledAt 0 s"
  unfolding settledAt_def seriesSettled_def
proof (intro allI impI)
  fix n v sd d
  assume v: "map_of (activeViewers s) n = Some v" and sd: "map_of (seriesData s) n = Some sd"
    and r: "resolveFrame s n sd 0 False = Display d"
  from v have "(n, v) \<in> set (activeViewers s)" by (rule map_of_SomeD)
  with assms(3) have cf: "currentFrame v = 0" by auto
  from sd have "(n, sd) \<in> set (seriesData s)" by (rule map_of_SomeD)
  with assms(4) have "frames sd \<noteq> []" by auto
  then have "min 0 (int (length (frames sd)) - 1) = 0" by (cases "frames sd") simp_all
  with r assms(1,2) have "d = 0" by (simp add: resolveFrame_def)
  with cf show "currentFrame v = d" by simp
qed

lemma buildSeries_positions:
  "positions (buildSeries n fs) = map position (frames (buildSeries n fs))"
  by (simp add: buildSeries_def Let_def)

lemma buildSeries_name: "sd_name (buildSeries n fs) = n"
  by (simp add: buildSeries_def Let_def)

lemma newViewer_frame [simp]: "currentFrame (newViewer sd) = 0"
  by (simp add: newViewer_def split: list.splits)

lemma exampleT2_frames: "frames (buildSeries T2WI exampleT2Files) \<noteq> []"
proof -
  have "map position (frames (buildSeries T2WI exampleT2Files)) = [0, 5, 10]"
    using exampleT2_positions by (simp add: buildSeries_def Let_def)
  then show ?thesis by auto
qed

lemma example_new_viewers:
  "foldl (\<lambda>vs (n, sd). AList.update n (newViewer sd) vs) []
     (sort_key (\<lambda>(n, sd). seriesSortNumber (sd_name sd))
        [(T1WI, buildSeries T1WI exampleT1Files), (T2WI, buildSeries T2WI exampleT2Files)])
   = [(T1WI, newViewer (buildSeries T1WI exampleT1Files)),
      (T2WI, newViewer (buildSeries T2WI exampleT2Files))]"
  by (simp add: buildSeries_name seriesSortNumber_def)

lemma exampleView_viewers:
  "activeViewers exampleView
   = [(T1WI, newViewer (buildSeries T1WI exampleT1Files)),
      (T2WI, newViewer (buildSeries T2WI exampleT2Files))]"
proof -
  let ?V = "[(T1WI, newViewer (buildSeries T1WI exampleT1Files)),
      (T2WI, newViewer (buildSeries T2WI exampleT2Files))]"
  let ?s1 = "foldl (\<lambda>st (n, fs). processSeriesFiles (\<lambda>u. OnLoad DecodeOk) n fs st)
        (initialView\<lparr>seriesData := [], activeViewers := [], imageCache := Map.empty,
           activeSeries := None\<rparr>)
        (groupFiles exampleFiles)"
  let ?sV = "?s1\<lparr>activeViewers := ?V\<rparr>"
  have ne: "exampleFiles \<noteq> []" by (simp add: exampleFiles_def exampleT1Files_def)
  have sd1: "seriesData ?s1 =
     [(T1WI, buildSeries T1WI exampleT1Files), (T2WI, buildSeries T2WI exampleT2Files)]"
    by (simp add: exampleGroups)
  have csv: "createSeriesViewers ?s1 = showFrame 0 False None ?sV"
    by (simp add: createSeriesViewers_def Let_def exampleGroups buildSeries_name
          seriesSortNumber_def)
  have ev: "exampleView = showFrame 0 False None (showFrame 0 False None ?sV)"
    using ne by (simp add: exampleView_def handleFileSelect_def Let_def csv)
  have sync: "syncEnabled ?sV" "syncMode ?sV = Frame"
    by (simp_all add: initialView_def)
  have st: "settledAt 0 ?sV"
    by (rule frame_mode_settled)
       (simp_all add: initialView_def exampleGroups exampleT1_frames exampleT2_frames)
  have i0: "currentFrameIndex (showFrame 0 False None t) = 0" for t
    by (simp add: showFrame_index Let_def)
  have a: "activeViewers (showFrame 0 False None ?sV) = ?V"
    using showFrame_settled_noop [OF sync(1) st i0] by simp
  have st2: "settledAt 0 (showFrame 0 False None ?sV)"
    using showFrame_settles [OF sync(1), of 0 False None] i0 by simp
  have sync2: "syncEnabled (showFrame 0 False None ?sV)" using sync(1) by simp
  have "activeViewers (showFrame 0 False None (showFrame 0 False None ?sV)) = ?V"
    using showFrame_settled_noop [OF sync2 st2 i0] a by simp
  with ev show ?thesis by simp
qed

theorem sync_enable_clears_selection_witness:
  "activeViewers (showNextFrame True (Some T1WI) (handleSeriesSelect T1WI (setSyncEnabled False exampleView))) \<noteq> [] \<and>
   activeSeries (showNextFrame True (Some T1WI) (handleSeriesSelect T1WI (setSyncEnabled False exampleView))) = Some T1WI \<and>
   Min (set (map (\<lambda>(n, v). currentFrame v)
     (activeViewers (showNextFrame True (Some T1WI)
        (handleSeriesSelect T1WI (setSyncEnabled False exampleView)))))) = 0 \<and>
   activeSeries (setSyncEnabled True (showNextFrame True (Some T1WI)
        (handleSeriesSelect T1WI (setSyncEnabled False exampleView)))) = None \<and>
   currentFrameIndex (showNextFrame True (Some T1WI)
        (handleSeriesSelect T1WI (setSyncEnabled False exampleView))) = 1 \<and>
   currentFrameIndex (setSyncEnabled True (showNextFrame True (Some T1WI)
        (handleSeriesSelect T1WI (setSyncEnabled False exampleView)))) = 0 \<and>
   reachable exampleView \<and> syncEnabled exampleView \<and> activeSeries exampleView = None \<and>
   handleSeriesSelect T2WI exampleView = exampleView"
proof -
  let ?u = "handleSeriesSelect T1WI (setSyncEnabled False exampleView)"
  let ?w = "showNextFrame True (Some T1WI) ?u"
  have u: "\<not> syncEnabled ?u" "activeViewers ?u = activeViewers exampleView"
      "seriesData ?u = seriesData exampleView" "positionMap ?u = positionMap exampleView"
    by (simp_all add: handleSeriesSelect_def setSyncEnabled_def Let_def split: option.splits)
  have "length (positions (buildSeries T1WI exampleT1Files)) = 5"
    by (simp only: exampleT1_positions) simp
  moreover have "length (positions (buildSeries T1WI exampleT1Files))
      = length (frames (buildSeries T1WI exampleT1Files))"
    by (simp only: buildSeries_positions length_map)
  ultimately have f1: "int (length (frames (buildSeries T1WI exampleT1Files))) = 5"
    by simp
  obtain fr where fr: "nth_opt (frames (buildSeries T1WI exampleT1Files)) 1 = Some fr"
    using f1 by (simp add: nth_opt_def)
  have w: "map (\<lambda>(n, v). (n, currentFrame v)) (activeViewers ?w) = [(T1WI, 1), (T2WI, 0)]"
      "currentFrameIndex ?w = 1" "activeSeries ?w = Some T1WI"
    using u fr
    by (simp_all add: showNextFrame_def updateSeriesFrame_def resolveFrame_def Let_def
          exampleView_viewers exampleSeries f1 handleSeriesSelect_def setSyncEnabled_def)
  have m: "map (\<lambda>(n, v). currentFrame v) (activeViewers ?w) = [1, 0]"
  proof -
    have "map (\<lambda>(n, v). currentFrame v) (activeViewers ?w)
        = map snd (map (\<lambda>(n, v). (n, currentFrame v)) (activeViewers ?w))"
      by (simp add: case_prod_beta comp_def)
    then show ?thesis by (simp only: w(1)) simp
  qed
  have ne: "activeViewers ?w \<noteq> []" using m by auto
  have pm: "pm_positions (positionMap ?w) = [0, 5, 10, 15, 20]"
    using u(4) by (simp add: exampleView_positions)
  show ?thesis
    using sync_enable_clears_selection [of ?w T2WI]
      sync_enable_clears_selection [of exampleView T2WI]
      ne m pm w(2,3) exampleView_reachable exampleView_sync(1)
    by simp
qed


section \<open>Position synchronisation on a stale index\<close>

lemma staleView_reachable: "reachable staleView"
proof -
  have "reachable (handle (LoadFile (exampleFile ''T1_01.jpg'')) exampleView)"
    by (rule reachable_step) (rule exampleView_reachable)
  then have "reachable (handle SyncPositionRadio
      (handle (LoadFile (exampleFile ''T1_01.jpg'')) exampleView))"
    by (rule reachable_step)
  then show ?thesis by (simp add: staleView_def)
qed

lemma staleView_series:
  "seriesData staleView =
     [(T1WI, \<lparr>sd_name = T1WI,
        frames = [\<lparr>fr_name = ''T1_01.jpg'', fr_url = ''blob:T1_01.jpg'', frameNumber = 0,
                   position = 0\<rparr>],
        sliceThickness = 5, sliceSpacing = 5, positions = [0]\<rparr>),
      (T2WI, buildSeries T2WI exampleT2Files)]"
  by (simp add: staleView_def loadFile_series exampleFile_def detect_T1_01 exampleSeries)

lemma staleView_state:
  "syncEnabled staleView" "syncMode staleView = Position"
  "positionMap staleView = positionMap exampleView"
  by (simp_all add: staleView_def exampleView_sync)

lemma staleView_bound: "\<exists>v. map_of (activeViewers staleView) T1WI = Some v"
proof -
  let ?f = "exampleFile ''T1_01.jpg''"
  have "map fst (activeViewers (loadFile ?f exampleView)) = [T1WI, T2WI]"
    by (simp add: loadFile_def Let_def createSeriesViewers_keys exampleFile_def detect_T1_01
          exampleSeries exampleView_viewers buildSeries_name seriesSortNumber_def)
  then have "map fst (activeViewers staleView) = [T1WI, T2WI]"
    by (simp add: staleView_def)
  then have "T1WI \<in> fst ` set (activeViewers staleView)"
    by (metis list.set_intros(1) set_map)
  then have "map_of (activeViewers staleView) T1WI \<noteq> None"
    by (simp add: map_of_eq_None_iff)
  then show ?thesis by auto
qed

text \<open>
  C2: the lookup fails where the position index is stale. After the example files,
  \<open>loadFile\<close> of one T1 file and the choice of position mode (a reachable state,
  \<open>staleView_reachable\<close>) the T1 series has one frame, at position 0, while the global
  positions are still the five of the example. Navigating to global index 1, position 5,
  leaves the T1 series at frame index 1, a frame it does not have, and not at frame
  index 0.
\<close>

theorem stale_index_position_sync:
  "syncEnabled staleView \<and> syncMode staleView = Position \<and>
   pm_positions (positionMap staleView) = [0, 5, 10, 15, 20] \<and>
   map_option positions (map_of (seriesData staleView) T1WI) = Some [0] \<and>
   map_option (\<lambda>sd. length (frames sd)) (map_of (seriesData staleView) T1WI) = Some 1 \<and>
   map_option currentFrame (map_of (activeViewers (showFrame 1 False None staleView)) T1WI)
     = Some 1"
proof -
  let ?sd = "\<lparr>sd_name = T1WI,
        frames = [\<lparr>fr_name = ''T1_01.jpg'', fr_url = ''blob:T1_01.jpg'', frameNumber = 0,
                   position = 0\<rparr>],
        sliceThickness = 5, sliceSpacing = 5, positions = [0]\<rparr>"
  let ?s' = "showFrame 1 False None staleView"
  have sd: "map_of (seriesData staleView) T1WI = Some ?sd"
    by (simp add: staleView_series)
  have pos: "pm_positions (positionMap staleView) = [0, 5, 10, 15, 20]"
    by (simp add: staleView_state exampleView_positions)
  have "(T1WI, buildSeries T1WI exampleT1Files) \<in> set (seriesData exampleView)"
    by (simp add: exampleSeries)
  with exampleView_built
  have tab: "pm_series (positionMap staleView) T1WI = Some (indexMapOf [0, 5, 10, 15, 20])"
    by (auto simp add: positionIndexBuilt_def staleView_state exampleT1_positions)
  have look: "indexMapOf [0, 5, 10, 15, 20] 5 = Some 1"
    by code_simp
  have idx: "currentFrameIndex ?s' = 1"
    by (simp add: showFrame_index pos)
  obtain v where v: "map_of (activeViewers staleView) T1WI = Some v"
    using staleView_bound by blast
  then obtain w where w: "map_of (activeViewers ?s') T1WI = Some w"
    using bound_after_showFrame by blast
  have res: "resolveFrame ?s' T1WI ?sd 1 False = Display 1"
    by (simp add: resolveFrame_def staleView_state(1,2) tab pos nth_opt_def look)
  have "settledAt 1 ?s'"
    using showFrame_settles [OF staleView_state(1), of 1 False None] idx by simp
  then have "seriesSettled 1 ?s' T1WI" by (simp add: settledAt_def)
  with w sd res have "currentFrame w = 1"
    by (simp add: seriesSettled_def)
  with w sd pos show ?thesis by (simp add: staleView_state)
qed

section \<open>Playback pacing\<close>

lemma js_rem_one:
  assumes "0 < d" and "d \<le> e" and "e < 2 * d"
  shows "js_rem e d = e - d"
proof -
  have "1 \<le> e / d" using assms by (simp add: pos_le_divide_eq)
  moreover have "e / d < 2" using assms by (simp add: pos_divide_less_eq)
  ultimately have "\<lfloor>e / d\<rfloor> = 1" "0 \<le> e / d" by linarith+
  then show ?thesis by (simp add: js_rem_def)
qed

lemma js_rem_floor:
  assumes "0 < d" and "0 \<le> e"
  shows "js_rem e d = e - d * of_int \<lfloor>e / d\<rfloor>" and "0 \<le> js_rem e d" and "js_rem e d < d"
proof -
  have q: "0 \<le> e / d" using assms by simp
  then show r: "js_rem e d = e - d * of_int \<lfloor>e / d\<rfloor>" by (simp add: js_rem_def)
  from of_int_floor_le [of "e / d"] have "of_int \<lfloor>e / d\<rfloor> * d \<le> e"
    unfolding pos_le_divide_eq [OF assms(1)] .
  then show "0 \<le> js_rem e d" by (simp add: r mult.commute)
  have "e / d < of_int \<lfloor>e / d\<rfloor> + 1" by linarith
  then have "e < (of_int \<lfloor>e / d\<rfloor> + 1) * d"
    unfolding pos_divide_less_eq [OF assms(1)] .
  then show "js_rem e d < d" by (simp add: r algebra_simps)
qed

lemma js_rem_whole:
  assumes "0 < d" and "0 \<le> e" and "d \<in> \<int>" and "e \<in> \<int>"
  shows "js_rem e d \<in> \<int>"
  unfolding js_rem_floor(1) [OF assms(1,2)] using assms(3,4) by simp

lemma playback_more_fields [simp]:
  "isPlaying (framePlayback pb time s) = isPlaying s"
  "positionMap (framePlayback pb time s) = positionMap s"
  "isPlaying (animationFrame time s) = isPlaying s"
  "positionMap (animationFrame time s) = positionMap s"
  by (simp_all add: framePlayback_def animationFrame_def Let_def split: option.splits)

lemma framePlayback_synced:
  assumes "isPlaying s" and "syncEnabled s"
  shows "playInterval (framePlayback pb time s) = Some (closureStep pb time)"
    and "currentFrameIndex (framePlayback pb time s) =
           (if delay pb \<le> roundDouble (time - lastTime pb)
            then currentFrameIndex
                   (if currentFrameIndex s \<ge> pb_maxFrames pb - 1
                    then showFrame 0 False None s else showNextFrame False None s)
            else currentFrameIndex s)"
  using assms by (simp_all add: framePlayback_def closureStep_def Let_def)

lemma runFrames_closure:
  "isPlaying s \<Longrightarrow> syncEnabled s \<Longrightarrow> playInterval s = Some pb
    \<Longrightarrow> playInterval (runFrames ts s) = Some (foldl closureStep pb ts)"
proof (induction ts arbitrary: s pb)
  case Nil
  then show ?case by (simp add: runFrames_def)
next
  case (Cons t ts)
  have af: "animationFrame t s = framePlayback pb t s"
    by (simp add: animationFrame_def Cons.prems(3))
  have "playInterval (animationFrame t s) = Some (closureStep pb t)"
    using framePlayback_synced(1) [OF Cons.prems(1,2), of pb t] by (simp add: af)
  moreover have "isPlaying (animationFrame t s)" "syncEnabled (animationFrame t s)"
    using Cons.prems(1,2) by simp_all
  ultimately have "playInterval (runFrames ts (animationFrame t s))
      = Some (foldl closureStep (closureStep pb t) ts)"
    using Cons.IH by blast
  then show ?case by (simp add: runFrames_def)
qed

lemma closureStep_whole:
  assumes d: "0 < delay pb" and dz: "delay pb \<in> \<int>" and lz: "lastTime pb \<in> \<int>"
    and l0: "0 \<le> lastTime pb" and tz: "time \<in> \<int>" and lt: "lastTime pb \<le> time"
    and t53: "time < 2 ^ 53"
  shows "closureStep pb time =
           (if delay pb \<le> time - lastTime pb
            then pb\<lparr>lastTime := time - js_rem (time - lastTime pb) (delay pb),
                    fires := Suc (fires pb)\<rparr>
            else pb)"
proof -
  let ?e = "time - lastTime pb"
  have e0: "0 \<le> ?e" using lt by simp
  have ez: "?e \<in> \<int>" using tz lz by simp
  have "\<bar>?e\<bar> < 2 ^ 53" using e0 l0 t53 by simp
  with ez have re: "roundDouble ?e = ?e" by (rule roundDouble_int)
  let ?r = "js_rem ?e (delay pb)"
  have rz: "?r \<in> \<int>" by (rule js_rem_whole [OF d e0 dz ez])
  have r0: "0 \<le> ?r" by (rule js_rem_floor(2) [OF d e0])
  have rle: "delay pb \<le> ?e \<Longrightarrow> ?r \<le> ?e"
    using js_rem_floor(3) [OF d e0] by simp
  have "delay pb \<le> ?e \<Longrightarrow> roundDouble (time - ?r) = time - ?r"
  proof -
    assume ge: "delay pb \<le> ?e"
    have "time - ?r \<in> \<int>" using tz rz by simp
    moreover have "\<bar>time - ?r\<bar> < 2 ^ 53"
      using rle [OF ge] r0 l0 t53 by simp
    ultimately show ?thesis by (rule roundDouble_int)
  qed
  then show ?thesis by (simp add: closureStep_def Let_def re)
qed

lemma whole_interval:
  assumes "0 < (r::int)" and "r dvd 1000"
  shows "roundDouble (1000 / of_int r) = 1000 / of_int r"
    and "(1000 / of_int r :: rat) \<in> \<int>" and "(0::rat) < 1000 / of_int r"
proof -
  from assms(2) obtain k where k: "1000 = r * k" by (rule dvdE)
  have kpos: "0 < k" using assms(1) k by (metis zero_less_mult_pos zero_less_numeral)
  have "k \<le> r * k" using assms(1) kpos by (simp add: mult_le_cancel_right1)
  then have k1000: "k \<le> 1000" using k by simp
  have e: "(1000 :: rat) = of_int r * of_int k"
    using k by (metis of_int_mult of_int_numeral)
  have nz: "(of_int r :: rat) \<noteq> 0" using assms(1) by simp
  have "(1000 / of_int r :: rat) = (of_int r * of_int k) / of_int r"
    by (simp only: e)
  also have "\<dots> = of_int k" using nz by simp
  finally have q: "(1000 / of_int r :: rat) = of_int k" .
  show "(1000 / of_int r :: rat) \<in> \<int>" by (simp add: q)
  show "(0::rat) < 1000 / of_int r" using assms(1) by simp
  have "\<bar>(of_int k :: rat)\<bar> < 2 ^ 53"
  proof -
    have "\<bar>(of_int k :: rat)\<bar> = of_int k" using kpos by simp
    also have "\<dots> \<le> of_int 1000" using k1000 by (simp only: of_int_le_iff)
    also have "\<dots> < 2 ^ 53" by simp
    finally show ?thesis .
  qed
  then have "roundDouble (of_int k) = of_int k"
    by (intro roundDouble_int) simp_all
  then show "roundDouble (1000 / of_int r) = 1000 / of_int r" by (simp add: q)
qed

lemma playback_index_step:
  assumes "syncEnabled s" and "m = int (length (pm_positions (positionMap s)))"
    and "0 \<le> currentFrameIndex s" and "currentFrameIndex s < m"
  shows "currentFrameIndex
           (if currentFrameIndex s \<ge> m - 1
            then showFrame 0 False None s else showNextFrame False None s)
         = (currentFrameIndex s + 1) mod m"
proof (cases "currentFrameIndex s \<ge> m - 1")
  case True
  with assms(4) have "currentFrameIndex s + 1 = m" by simp
  with True assms show ?thesis by (simp add: showFrame_index Let_def)
next
  case False
  then have "currentFrameIndex s + 1 < m" by simp
  with False assms show ?thesis
    by (simp add: showNextFrame_def showFrame_index Let_def)
qed

lemma animationFrame_step:
  assumes play: "isPlaying s" and sync: "syncEnabled s" and pb: "playInterval s = Some pb"
    and d: "0 < delay pb" and dz: "delay pb \<in> \<int>"
    and lz: "lastTime pb \<in> \<int>" and l0: "0 \<le> lastTime pb"
    and lt: "lastTime pb \<le> t" and acc: "t - lastTime pb < delay pb"
    and tu: "t \<le> u" and gap: "u - t \<le> delay pb"
    and uz: "u \<in> \<int>" and u53: "u < 2 ^ 53"
    and m: "pb_maxFrames pb = int (length (pm_positions (positionMap s)))"
    and c0: "0 \<le> currentFrameIndex s" and c1: "currentFrameIndex s < pb_maxFrames pb"
  shows "\<exists>pb1. playInterval (animationFrame u s) = Some pb1 \<and> delay pb1 = delay pb \<and>
           pb_maxFrames pb1 = pb_maxFrames pb \<and> lastTime pb1 \<in> \<int> \<and>
           lastTime pb \<le> lastTime pb1 \<and> lastTime pb1 \<le> u \<and>
           u - lastTime pb1 < delay pb \<and>
           ((delay pb \<le> u - lastTime pb \<and> fires pb1 = Suc (fires pb) \<and>
             lastTime pb1 = lastTime pb + delay pb \<and>
             currentFrameIndex (animationFrame u s)
               = (currentFrameIndex s + 1) mod pb_maxFrames pb) \<or>
            (u - lastTime pb < delay pb \<and> pb1 = pb \<and>
             currentFrameIndex (animationFrame u s) = currentFrameIndex s))"
proof -
  have af: "animationFrame u s = framePlayback pb u s"
    by (simp add: animationFrame_def pb)
  let ?e = "u - lastTime pb"
  have lu: "lastTime pb \<le> u" using lt tu by simp
  have e2: "?e < 2 * delay pb" using acc gap by simp
  have ez: "?e \<in> \<int>" using uz lz by simp
  have "\<bar>?e\<bar> < 2 ^ 53" using lu l0 u53 by simp
  with ez have re: "roundDouble ?e = ?e" by (rule roundDouble_int)
  have cs: "closureStep pb u =
           (if delay pb \<le> ?e
            then pb\<lparr>lastTime := u - js_rem ?e (delay pb), fires := Suc (fires pb)\<rparr>
            else pb)"
    by (rule closureStep_whole [OF d dz lz l0 uz lu u53])
  have p: "playInterval (animationFrame u s) = Some (closureStep pb u)"
    using framePlayback_synced(1) [OF play sync, of pb u] by (simp add: af)
  show ?thesis
  proof (cases "delay pb \<le> ?e")
    case True
    have r: "js_rem ?e (delay pb) = ?e - delay pb"
      by (rule js_rem_one) (use d True e2 in simp_all)
    let ?pb1 = "pb\<lparr>lastTime := u - js_rem ?e (delay pb), fires := Suc (fires pb)\<rparr>"
    have p1: "playInterval (animationFrame u s) = Some ?pb1"
      using p cs True by simp
    have i: "currentFrameIndex (animationFrame u s)
        = (currentFrameIndex s + 1) mod pb_maxFrames pb"
      using framePlayback_synced(2) [OF play sync, of pb u] True
        playback_index_step [OF sync m c0 c1]
      by (simp add: af re)
    have a: "lastTime ?pb1 = lastTime pb + delay pb" by (simp add: r)
    then have "lastTime ?pb1 \<in> \<int>" using lz dz by simp
    moreover have "lastTime pb \<le> lastTime ?pb1" using a d by simp
    moreover have "lastTime ?pb1 \<le> u" using True by (simp add: r)
    moreover have "u - lastTime ?pb1 < delay pb" using e2 by (simp add: r)
    ultimately show ?thesis using p1 i True a by auto
  next
    case False
    have p1: "playInterval (animationFrame u s) = Some pb"
      using p cs False by simp
    have i: "currentFrameIndex (animationFrame u s) = currentFrameIndex s"
      using framePlayback_synced(2) [OF play sync, of pb u] False by (simp add: af re)
    from p1 i False lz lu show ?thesis by auto
  qed
qed

lemma runFrames_paced:
  assumes "paced (delay pb) t ts" and "wholeTimes ts"
    and "isPlaying s" and "syncEnabled s"
    and "playInterval s = Some pb" and "0 < delay pb" and "delay pb \<in> \<int>"
    and "lastTime pb \<in> \<int>" and "0 \<le> lastTime pb"
    and "lastTime pb \<le> t" and "t - lastTime pb < delay pb"
    and "pb_maxFrames pb = int (length (pm_positions (positionMap s)))"
    and "0 \<le> currentFrameIndex s" and "currentFrameIndex s < pb_maxFrames pb"
  shows "\<exists>pb'. playInterval (runFrames ts s) = Some pb' \<and> fires pb \<le> fires pb' \<and>
           lastTime pb' = lastTime pb + of_nat (fires pb' - fires pb) * delay pb \<and>
           lastTime pb' \<le> last (t # ts) \<and> last (t # ts) - lastTime pb' < delay pb \<and>
           currentFrameIndex (runFrames ts s)
             = (currentFrameIndex s + int (fires pb' - fires pb)) mod pb_maxFrames pb"
  using assms
proof (induction ts arbitrary: s pb t)
  case Nil
  then show ?case by (simp add: runFrames_def)
next
  case (Cons u us)
  from Cons.prems(1) have tu: "t \<le> u" and gap: "u - t \<le> delay pb"
    and rest: "paced (delay pb) u us" by simp_all
  from Cons.prems(2) have uz: "u \<in> \<int>" and u53: "u < 2 ^ 53" and wrest: "wholeTimes us"
    by simp_all
  let ?s1 = "animationFrame u s"
  from animationFrame_step [OF Cons.prems(3,4,5,6,7,8,9,10,11) tu gap uz u53
      Cons.prems(12,13,14)]
  obtain pb1 where p1: "playInterval ?s1 = Some pb1" and d1: "delay pb1 = delay pb"
    and m1: "pb_maxFrames pb1 = pb_maxFrames pb" and lz1: "lastTime pb1 \<in> \<int>"
    and ll: "lastTime pb \<le> lastTime pb1" and l1: "lastTime pb1 \<le> u"
    and a1: "u - lastTime pb1 < delay pb"
    and alt: "(delay pb \<le> u - lastTime pb \<and> fires pb1 = Suc (fires pb) \<and>
             lastTime pb1 = lastTime pb + delay pb \<and>
             currentFrameIndex ?s1 = (currentFrameIndex s + 1) mod pb_maxFrames pb) \<or>
            (u - lastTime pb < delay pb \<and> pb1 = pb \<and>
             currentFrameIndex ?s1 = currentFrameIndex s)"
    by blast
  have mpos: "0 < pb_maxFrames pb" using Cons.prems(13,14) by simp
  have c1: "0 \<le> currentFrameIndex ?s1" "currentFrameIndex ?s1 < pb_maxFrames pb1"
    using alt Cons.prems(13,14) mpos m1 by auto
  have l01: "0 \<le> lastTime pb1" using ll Cons.prems(9) by simp
  have run: "runFrames (u # us) s = runFrames us ?s1"
    by (simp add: runFrames_def)
  have "\<exists>pb'. playInterval (runFrames us ?s1) = Some pb' \<and> fires pb1 \<le> fires pb' \<and>
           lastTime pb' = lastTime pb1 + of_nat (fires pb' - fires pb1) * delay pb1 \<and>
           lastTime pb' \<le> last (u # us) \<and> last (u # us) - lastTime pb' < delay pb1 \<and>
           currentFrameIndex (runFrames us ?s1)
             = (currentFrameIndex ?s1 + int (fires pb' - fires pb1)) mod pb_maxFrames pb1"
    by (rule Cons.IH [where t = u])
       (use rest wrest p1 d1 m1 lz1 l01 l1 a1 c1 Cons.prems in simp_all)
  then obtain pb' where q: "playInterval (runFrames us ?s1) = Some pb'"
    and f: "fires pb1 \<le> fires pb'"
    and l: "lastTime pb' = lastTime pb1 + of_nat (fires pb' - fires pb1) * delay pb1"
    and b1: "lastTime pb' \<le> last (u # us)" and b2: "last (u # us) - lastTime pb' < delay pb1"
    and i: "currentFrameIndex (runFrames us ?s1)
             = (currentFrameIndex ?s1 + int (fires pb' - fires pb1)) mod pb_maxFrames pb1"
    by blast
  from alt show ?case
  proof
    assume fired: "delay pb \<le> u - lastTime pb \<and> fires pb1 = Suc (fires pb) \<and>
             lastTime pb1 = lastTime pb + delay pb \<and>
             currentFrameIndex ?s1 = (currentFrameIndex s + 1) mod pb_maxFrames pb"
    have k: "fires pb' - fires pb = Suc (fires pb' - fires pb1)"
      using fired f by simp
    have "lastTime pb' = lastTime pb + of_nat (fires pb' - fires pb) * delay pb"
      using l fired d1 by (simp add: k algebra_simps)
    moreover have "currentFrameIndex (runFrames us ?s1)
        = (currentFrameIndex s + int (fires pb' - fires pb)) mod pb_maxFrames pb"
      using i fired m1 by (simp add: k mod_add_left_eq add.assoc)
    moreover have "fires pb \<le> fires pb'" using fired f by simp
    ultimately show ?thesis using q b1 b2 d1 run by simp
  next
    assume idle: "u - lastTime pb < delay pb \<and> pb1 = pb \<and>
             currentFrameIndex ?s1 = currentFrameIndex s"
    then show ?thesis using q f l b1 b2 i run by simp
  qed
qed

lemma floor_of_fires:
  assumes "0 < (d::rat)" and "l = t0 + of_nat n * d" and "l \<le> T" and "T - l < d"
  shows "nat \<lfloor>(T - t0) / d\<rfloor> = n"
proof -
  have "of_int (int n) \<le> (T - t0) / d"
    unfolding pos_le_divide_eq [OF assms(1)] using assms(2,3) by simp
  moreover have "(T - t0) / d < of_int (int n) + 1"
    unfolding pos_divide_less_eq [OF assms(1)] using assms(2,4) by (simp add: algebra_simps)
  ultimately have "\<lfloor>(T - t0) / d\<rfloor> = int n" by (rule floor_unique)
  then show ?thesis by simp
qed

text \<open>
  C7, amended. Playback is paced by elapsed wall time with a remainder-carrying
  accumulator held in doubles. While the view is playing with synchronisation enabled
  and the set of loaded series has not changed since playback started (the frame count
  the loop captured at its start is the current number of global positions), and where
  the arithmetic of the loop is exact (the rate divides 1000, so that the interval 1000
  over the rate is a whole number of milliseconds, and the times of the start and of the
  callbacks are whole milliseconds below \<open>2^53\<close>): each iteration whose elapsed time since
  the previous fire reaches the interval advances one frame, wrapping to 0 after the last
  index, and keeps in the accumulator the elapsed time modulo the interval, which is the
  elapsed time less one interval when fewer than two intervals have elapsed. With no
  missed tick (each callback at most one interval after the one before) the number of
  advances up to the last callback, at wall time \<open>T\<close> after the start, is the floor of \<open>T\<close>
  times the rate over 1000, and the global index has advanced by that many frames.
\<close>

theorem playback_pacing:
  assumes "isPlaying s" and "syncEnabled s" and "playInterval s = Some pb"
    and "0 < playbackSpeed s" and "playbackSpeed s dvd 1000"
    and "delay pb = roundDouble (1000 / of_int (playbackSpeed s))"
    and "fires pb = 0"
    and "pb_maxFrames pb = int (length (pm_positions (positionMap s)))"
    and "0 \<le> currentFrameIndex s" and "currentFrameIndex s < pb_maxFrames pb"
    and "lastTime pb \<in> \<int>" and "0 \<le> lastTime pb"
    and "wholeTimes ts" and "paced (delay pb) (lastTime pb) ts"
  shows "delay pb = 1000 / of_int (playbackSpeed s) \<and>
         (\<exists>pb'. playInterval (runFrames ts s) = Some pb' \<and>
           fires pb' = nat \<lfloor>(last (lastTime pb # ts) - lastTime pb)
                              * of_int (playbackSpeed s) / 1000\<rfloor> \<and>
           currentFrameIndex (runFrames ts s)
             = (currentFrameIndex s + int (fires pb')) mod pb_maxFrames pb) \<and>
         (\<forall>time. time \<in> \<int> \<longrightarrow> time < 2 ^ 53 \<longrightarrow> delay pb \<le> time - lastTime pb \<longrightarrow>
           (\<exists>pb1. playInterval (animationFrame time s) = Some pb1 \<and>
              fires pb1 = Suc (fires pb) \<and>
              time - lastTime pb1 = js_rem (time - lastTime pb) (delay pb) \<and>
              0 \<le> time - lastTime pb1 \<and> time - lastTime pb1 < delay pb \<and>
              (time - lastTime pb < 2 * delay pb \<longrightarrow>
                 time - lastTime pb1 = time - lastTime pb - delay pb) \<and>
              currentFrameIndex (animationFrame time s)
                = (currentFrameIndex s + 1) mod pb_maxFrames pb))"
proof (intro conjI)
  show dex: "delay pb = 1000 / of_int (playbackSpeed s)"
    unfolding assms(6) by (rule whole_interval(1) [OF assms(4,5)])
  have dpos: "0 < delay pb" unfolding dex by (rule whole_interval(3) [OF assms(4,5)])
  have dz: "delay pb \<in> \<int>" unfolding dex by (rule whole_interval(2) [OF assms(4,5)])
  from runFrames_paced [OF assms(14,13,1,2,3) dpos dz assms(11,12) _ _ assms(8,9,10)] dpos
  obtain pb' where q: "playInterval (runFrames ts s) = Some pb'"
    and l: "lastTime pb' = lastTime pb + of_nat (fires pb' - fires pb) * delay pb"
    and b1: "lastTime pb' \<le> last (lastTime pb # ts)"
    and b2: "last (lastTime pb # ts) - lastTime pb' < delay pb"
    and i: "currentFrameIndex (runFrames ts s)
             = (currentFrameIndex s + int (fires pb' - fires pb)) mod pb_maxFrames pb"
    by auto
  have l': "lastTime pb' = lastTime pb + of_nat (fires pb') * delay pb"
    using l assms(7) by simp
  have A: "nat \<lfloor>(last (lastTime pb # ts) - lastTime pb) / delay pb\<rfloor> = fires pb'"
    by (rule floor_of_fires [OF dpos l' b1 b2])
  have B: "(last (lastTime pb # ts) - lastTime pb) / delay pb
      = (last (lastTime pb # ts) - lastTime pb) * of_int (playbackSpeed s) / 1000"
    unfolding dex by (rule divide_divide_eq_right)
  from A have "nat \<lfloor>(last (lastTime pb # ts) - lastTime pb)
                              * of_int (playbackSpeed s) / 1000\<rfloor> = fires pb'"
    unfolding B .
  with q i assms(7)
  show "\<exists>pb'. playInterval (runFrames ts s) = Some pb' \<and>
           fires pb' = nat \<lfloor>(last (lastTime pb # ts) - lastTime pb)
                              * of_int (playbackSpeed s) / 1000\<rfloor> \<and>
           currentFrameIndex (runFrames ts s)
             = (currentFrameIndex s + int (fires pb')) mod pb_maxFrames pb"
    by simp
  show "\<forall>time. time \<in> \<int> \<longrightarrow> time < 2 ^ 53 \<longrightarrow> delay pb \<le> time - lastTime pb \<longrightarrow>
           (\<exists>pb1. playInterval (animationFrame time s) = Some pb1 \<and>
              fires pb1 = Suc (fires pb) \<and>
              time - lastTime pb1 = js_rem (time - lastTime pb) (delay pb) \<and>
              0 \<le> time - lastTime pb1 \<and> time - lastTime pb1 < delay pb \<and>
              (time - lastTime pb < 2 * delay pb \<longrightarrow>
                 time - lastTime pb1 = time - lastTime pb - delay pb) \<and>
              currentFrameIndex (animationFrame time s)
                = (currentFrameIndex s + 1) mod pb_maxFrames pb)"
  proof (intro allI impI)
    fix time :: rat
    assume tz: "time \<in> \<int>" and t53: "time < 2 ^ 53"
      and ge: "delay pb \<le> time - lastTime pb"
    let ?e = "time - lastTime pb"
    let ?pb1 = "pb\<lparr>lastTime := time - js_rem ?e (delay pb), fires := Suc (fires pb)\<rparr>"
    have lt: "lastTime pb \<le> time" using ge dpos by simp
    have e0: "0 \<le> ?e" using lt by simp
    have ez: "?e \<in> \<int>" using tz assms(11) by simp
    have "\<bar>?e\<bar> < 2 ^ 53" using lt assms(12) t53 by simp
    with ez have re: "roundDouble ?e = ?e" by (rule roundDouble_int)
    have af: "animationFrame time s = framePlayback pb time s"
      by (simp add: animationFrame_def assms(3))
    have cs: "closureStep pb time = ?pb1"
      using closureStep_whole [OF dpos dz assms(11,12) tz lt t53] ge by simp
    have p: "playInterval (animationFrame time s) = Some ?pb1"
      using framePlayback_synced(1) [OF assms(1,2), of pb time] by (simp add: af cs)
    have i: "currentFrameIndex (animationFrame time s)
        = (currentFrameIndex s + 1) mod pb_maxFrames pb"
      using framePlayback_synced(2) [OF assms(1,2), of pb time] ge
        playback_index_step [OF assms(2,8,9,10)]
      by (simp add: af re)
    have one: "?e < 2 * delay pb \<Longrightarrow> js_rem ?e (delay pb) = ?e - delay pb"
      by (rule js_rem_one) (use dpos ge in simp_all)
    show "\<exists>pb1. playInterval (animationFrame time s) = Some pb1 \<and>
              fires pb1 = Suc (fires pb) \<and>
              time - lastTime pb1 = js_rem ?e (delay pb) \<and>
              0 \<le> time - lastTime pb1 \<and> time - lastTime pb1 < delay pb \<and>
              (?e < 2 * delay pb \<longrightarrow> time - lastTime pb1 = ?e - delay pb) \<and>
              currentFrameIndex (animationFrame time s)
                = (currentFrameIndex s + 1) mod pb_maxFrames pb"
      using p i js_rem_floor(2,3) [OF dpos e0] one by simp
  qed
qed


subsection \<open>The example played at the rates 5 and 7\<close>

text \<open>
  The double nearest to a positive number whose significand is scaled into
  \<open>[2^52, 2^53)\<close> by \<open>k\<close> doublings, and with it the closure of the playback loop at the
  rate 7 over ten callbacks 100 ms apart, step by step.
\<close>

lemma doubleScale_up:
  "2 ^ 52 \<le> m * 2 ^ k \<Longrightarrow> m * 2 ^ k < 2 ^ 53 \<Longrightarrow> k < n
    \<Longrightarrow> doubleScale n m u = (m * 2 ^ k, u / 2 ^ k)"
proof (induction k arbitrary: n m u)
  case 0
  then obtain n' where "n = Suc n'" by (cases n) simp_all
  with 0 show ?case by simp
next
  case (Suc k)
  from Suc.prems(3) obtain n' where n: "n = Suc n'" and k: "k < n'"
    by (cases n) simp_all
  have "m * 1 \<le> m * 2 ^ k"
  proof (rule mult_left_mono)
    show "(1::rat) \<le> 2 ^ k" by simp
    have "0 < m * 2 ^ Suc k" using Suc.prems(1) by (rule less_le_trans [rotated]) simp
    then show "0 \<le> m" by (simp add: zero_less_mult_iff)
  qed
  moreover have "m * 2 ^ k < 2 ^ 52" using Suc.prems(2) by simp
  ultimately have lt: "m < 2 ^ 52" by simp
  have "doubleScale n' (2 * m) (u / 2) = (2 * m * 2 ^ k, u / 2 / 2 ^ k)"
    by (rule Suc.IH) (use Suc.prems k in \<open>simp_all add: mult_ac\<close>)
  then show ?case using lt by (simp add: n mult_ac)
qed

lemma roundDouble_at:
  assumes "2 ^ 52 \<le> x * 2 ^ k" and "x * 2 ^ k < 2 ^ 53" and "k < 1074"
  shows "roundDouble x = of_int (roundEven (x * 2 ^ k)) / 2 ^ k"
proof -
  have "0 < x * 2 ^ k" using assms(1) by (rule less_le_trans [rotated]) simp
  then have x: "0 < x" by (simp add: zero_less_mult_iff)
  then have a: "\<bar>x\<bar> = x" by simp
  have "doubleScale 1074 \<bar>x\<bar> 1 = (x * 2 ^ k, 1 / 2 ^ k)"
    unfolding a by (rule doubleScale_up [OF assms])
  then show ?thesis using x by (simp add: roundDouble_def)
qed

lemma rate7_closure:
  "foldl closureStep \<lparr>pb_maxFrames = 5, delay = 5026338869833143 / 35184372088832, lastTime = 0, fires = 0\<rparr>
     [100, 200, 300, 400, 500, 600, 700, 800, 900, 1000]
   = \<lparr>pb_maxFrames = 5, delay = 5026338869833143 / 35184372088832, lastTime = 7539508304749715 / 8796093022208, fires = 6\<rparr>"
proof -
  have e1: "roundDouble (100) = 100"
    using roundDouble_at [of "100" 46] by (simp add: roundEven_def Let_def)
  have s1: "closureStep \<lparr>pb_maxFrames = 5, delay = 5026338869833143 / 35184372088832, lastTime = 0, fires = 0\<rparr> 100
      = \<lparr>pb_maxFrames = 5, delay = 5026338869833143 / 35184372088832, lastTime = 0, fires = 0\<rparr>"
    by (simp add: closureStep_def Let_def e1)
  have e2: "roundDouble (200) = 200"
    using roundDouble_at [of "200" 45] by (simp add: roundEven_def Let_def)
  have f2: "\<lfloor>(200 :: rat) / (5026338869833143 / 35184372088832)\<rfloor> = 1"
    by (rule floor_unique) simp_all
  have r2: "js_rem (200) (5026338869833143 / 35184372088832) = 2010535547933257 / 35184372088832"
    using f2 by (simp add: js_rem_def)
  have l2: "roundDouble (5026338869833143 / 35184372088832) = 5026338869833143 / 35184372088832"
    using roundDouble_at [of "5026338869833143 / 35184372088832" 45] by (simp add: roundEven_def Let_def)
  have s2: "closureStep \<lparr>pb_maxFrames = 5, delay = 5026338869833143 / 35184372088832, lastTime = 0, fires = 0\<rparr> 200
      = \<lparr>pb_maxFrames = 5, delay = 5026338869833143 / 35184372088832, lastTime = 5026338869833143 / 35184372088832, fires = 1\<rparr>"
    by (simp add: closureStep_def Let_def e2 r2 l2)
  have e3: "roundDouble (5528972756816457 / 35184372088832) = 5528972756816457 / 35184372088832"
    using roundDouble_at [of "5528972756816457 / 35184372088832" 45] by (simp add: roundEven_def Let_def)
  have f3: "\<lfloor>(5528972756816457 / 35184372088832 :: rat) / (5026338869833143 / 35184372088832)\<rfloor> = 1"
    by (rule floor_unique) simp_all
  have r3: "js_rem (5528972756816457 / 35184372088832) (5026338869833143 / 35184372088832) = 251316943491657 / 17592186044416"
    using f3 by (simp add: js_rem_def)
  have l3: "roundDouble (5026338869833143 / 17592186044416) = 5026338869833143 / 17592186044416"
    using roundDouble_at [of "5026338869833143 / 17592186044416" 44] by (simp add: roundEven_def Let_def)
  have s3: "closureStep \<lparr>pb_maxFrames = 5, delay = 5026338869833143 / 35184372088832, lastTime = 5026338869833143 / 35184372088832, fires = 1\<rparr> 300
      = \<lparr>pb_maxFrames = 5, delay = 5026338869833143 / 35184372088832, lastTime = 5026338869833143 / 17592186044416, fires = 2\<rparr>"
    by (simp add: closureStep_def Let_def e3 r3 l3)
  have e4: "roundDouble (2010535547933257 / 17592186044416) = 2010535547933257 / 17592186044416"
    using roundDouble_at [of "2010535547933257 / 17592186044416" 46] by (simp add: roundEven_def Let_def)
  have s4: "closureStep \<lparr>pb_maxFrames = 5, delay = 5026338869833143 / 35184372088832, lastTime = 5026338869833143 / 17592186044416, fires = 2\<rparr> 400
      = \<lparr>pb_maxFrames = 5, delay = 5026338869833143 / 35184372088832, lastTime = 5026338869833143 / 17592186044416, fires = 2\<rparr>"
    by (simp add: closureStep_def Let_def e4)
  have e5: "roundDouble (3769754152374857 / 17592186044416) = 3769754152374857 / 17592186044416"
    using roundDouble_at [of "3769754152374857 / 17592186044416" 45] by (simp add: roundEven_def Let_def)
  have f5: "\<lfloor>(3769754152374857 / 17592186044416 :: rat) / (5026338869833143 / 35184372088832)\<rfloor> = 1"
    by (rule floor_unique) simp_all
  have r5: "js_rem (3769754152374857 / 17592186044416) (5026338869833143 / 35184372088832) = 2513169434916571 / 35184372088832"
    using f5 by (simp add: js_rem_def)
  have l5: "roundDouble (15079016609499429 / 35184372088832) = 3769754152374857 / 8796093022208"
  proof -
    have "\<lfloor>15079016609499429 / 2 :: rat\<rfloor> = 7539508304749714"
      by (rule floor_unique) simp_all
    then show ?thesis
      using roundDouble_at [of "15079016609499429 / 35184372088832" 44] by (simp add: roundEven_def Let_def)
  qed
  have s5: "closureStep \<lparr>pb_maxFrames = 5, delay = 5026338869833143 / 35184372088832, lastTime = 5026338869833143 / 17592186044416, fires = 2\<rparr> 500
      = \<lparr>pb_maxFrames = 5, delay = 5026338869833143 / 35184372088832, lastTime = 3769754152374857 / 8796093022208, fires = 3\<rparr>"
    by (simp add: closureStep_def Let_def e5 r5 l5)
  have e6: "roundDouble (1507901660949943 / 8796093022208) = 1507901660949943 / 8796093022208"
    using roundDouble_at [of "1507901660949943 / 8796093022208" 45] by (simp add: roundEven_def Let_def)
  have f6: "\<lfloor>(1507901660949943 / 8796093022208 :: rat) / (5026338869833143 / 35184372088832)\<rfloor> = 1"
    by (rule floor_unique) simp_all
  have r6: "js_rem (1507901660949943 / 8796093022208) (5026338869833143 / 35184372088832) = 1005267773966629 / 35184372088832"
    using f6 by (simp add: js_rem_def)
  have l6: "roundDouble (20105355479332571 / 35184372088832) = 5026338869833143 / 8796093022208"
  proof -
    have "\<lfloor>20105355479332571 / 4 :: rat\<rfloor> = 5026338869833142"
      by (rule floor_unique) simp_all
    then show ?thesis
      using roundDouble_at [of "20105355479332571 / 35184372088832" 43] by (simp add: roundEven_def Let_def)
  qed
  have s6: "closureStep \<lparr>pb_maxFrames = 5, delay = 5026338869833143 / 35184372088832, lastTime = 3769754152374857 / 8796093022208, fires = 3\<rparr> 600
      = \<lparr>pb_maxFrames = 5, delay = 5026338869833143 / 35184372088832, lastTime = 5026338869833143 / 8796093022208, fires = 4\<rparr>"
    by (simp add: closureStep_def Let_def e6 r6 l6)
  have e7: "roundDouble (1130926245712457 / 8796093022208) = 1130926245712457 / 8796093022208"
    using roundDouble_at [of "1130926245712457 / 8796093022208" 45] by (simp add: roundEven_def Let_def)
  have s7: "closureStep \<lparr>pb_maxFrames = 5, delay = 5026338869833143 / 35184372088832, lastTime = 5026338869833143 / 8796093022208, fires = 4\<rparr> 700
      = \<lparr>pb_maxFrames = 5, delay = 5026338869833143 / 35184372088832, lastTime = 5026338869833143 / 8796093022208, fires = 4\<rparr>"
    by (simp add: closureStep_def Let_def e7)
  have e8: "roundDouble (2010535547933257 / 8796093022208) = 2010535547933257 / 8796093022208"
    using roundDouble_at [of "2010535547933257 / 8796093022208" 45] by (simp add: roundEven_def Let_def)
  have f8: "\<lfloor>(2010535547933257 / 8796093022208 :: rat) / (5026338869833143 / 35184372088832)\<rfloor> = 1"
    by (rule floor_unique) simp_all
  have r8: "js_rem (2010535547933257 / 8796093022208) (5026338869833143 / 35184372088832) = 3015803321899885 / 35184372088832"
    using f8 by (simp add: js_rem_def)
  have l8: "roundDouble (25131694349165715 / 35184372088832) = 6282923587291429 / 8796093022208"
  proof -
    have "\<lfloor>25131694349165715 / 4 :: rat\<rfloor> = 6282923587291428"
      by (rule floor_unique) simp_all
    then show ?thesis
      using roundDouble_at [of "25131694349165715 / 35184372088832" 43] by (simp add: roundEven_def Let_def)
  qed
  have s8: "closureStep \<lparr>pb_maxFrames = 5, delay = 5026338869833143 / 35184372088832, lastTime = 5026338869833143 / 8796093022208, fires = 4\<rparr> 800
      = \<lparr>pb_maxFrames = 5, delay = 5026338869833143 / 35184372088832, lastTime = 6282923587291429 / 8796093022208, fires = 5\<rparr>"
    by (simp add: closureStep_def Let_def e8 r8 l8)
  have e9: "roundDouble (1633560132695771 / 8796093022208) = 1633560132695771 / 8796093022208"
    using roundDouble_at [of "1633560132695771 / 8796093022208" 45] by (simp add: roundEven_def Let_def)
  have f9: "\<lfloor>(1633560132695771 / 8796093022208 :: rat) / (5026338869833143 / 35184372088832)\<rfloor> = 1"
    by (rule floor_unique) simp_all
  have r9: "js_rem (1633560132695771 / 8796093022208) (5026338869833143 / 35184372088832) = 1507901660949941 / 35184372088832"
    using f9 by (simp add: js_rem_def)
  have l9: "roundDouble (30158033218998859 / 35184372088832) = 7539508304749715 / 8796093022208"
  proof -
    have "\<lfloor>30158033218998859 / 4 :: rat\<rfloor> = 7539508304749714"
      by (rule floor_unique) simp_all
    then show ?thesis
      using roundDouble_at [of "30158033218998859 / 35184372088832" 43] by (simp add: roundEven_def Let_def)
  qed
  have s9: "closureStep \<lparr>pb_maxFrames = 5, delay = 5026338869833143 / 35184372088832, lastTime = 6282923587291429 / 8796093022208, fires = 5\<rparr> 900
      = \<lparr>pb_maxFrames = 5, delay = 5026338869833143 / 35184372088832, lastTime = 7539508304749715 / 8796093022208, fires = 6\<rparr>"
    by (simp add: closureStep_def Let_def e9 r9 l9)
  have e10: "roundDouble (1256584717458285 / 8796093022208) = 1256584717458285 / 8796093022208"
    using roundDouble_at [of "1256584717458285 / 8796093022208" 45] by (simp add: roundEven_def Let_def)
  have s10: "closureStep \<lparr>pb_maxFrames = 5, delay = 5026338869833143 / 35184372088832, lastTime = 7539508304749715 / 8796093022208, fires = 6\<rparr> 1000
      = \<lparr>pb_maxFrames = 5, delay = 5026338869833143 / 35184372088832, lastTime = 7539508304749715 / 8796093022208, fires = 6\<rparr>"
    by (simp add: closureStep_def Let_def e10)
  show ?thesis
    by (simp only: foldl.simps s1 s2 s3 s4 s5 s6 s7 s8 s9 s10)
qed

lemma rate7_interval: "roundDouble (1000 / 7) = 5026338869833143 / 35184372088832"
proof -
  have "\<lfloor>35184372088832000 / 7 :: rat\<rfloor> = 5026338869833142"
    by (rule floor_unique) simp_all
  then show ?thesis
    using roundDouble_at [of "1000 / 7" 45] by (simp add: roundEven_def Let_def)
qed

lemma startPlayback_closure:
  assumes "\<not> isPlaying s" and "pm_positions (positionMap s) \<noteq> []"
  shows "isPlaying (togglePlayback now s)"
    and "playInterval (togglePlayback now s)
           = Some \<lparr>pb_maxFrames = int (length (pm_positions (positionMap s))),
                   delay = roundDouble (1000 / of_int (playbackSpeed s)),
                   lastTime = now, fires = 0\<rparr>"
    and "positionMap (togglePlayback now s) = positionMap s"
    and "syncEnabled (togglePlayback now s) = syncEnabled s"
    and "currentFrameIndex (togglePlayback now s) = currentFrameIndex s"
    and "playbackSpeed (togglePlayback now s) = playbackSpeed s"
  using assms by (simp_all add: togglePlayback_def startPlayback_def Let_def)

lemma examplePlaying:
  "isPlaying (togglePlayback 0 exampleView)"
  "syncEnabled (togglePlayback 0 exampleView)"
  "playInterval (togglePlayback 0 exampleView)
     = Some \<lparr>pb_maxFrames = 5, delay = 200, lastTime = 0, fires = 0\<rparr>"
  "pm_positions (positionMap (togglePlayback 0 exampleView)) = [0, 5, 10, 15, 20]"
  "currentFrameIndex (togglePlayback 0 exampleView) = 0"
  "playbackSpeed (togglePlayback 0 exampleView) = 5"
proof -
  have e: "\<not> isPlaying exampleView" "playbackSpeed exampleView = 5"
    by (simp_all add: exampleView_def initialView_def)
  have ne: "pm_positions (positionMap exampleView) \<noteq> []"
    by (simp add: exampleView_positions)
  have "roundDouble (of_int 200) = of_int 200"
    by (rule roundDouble_int) simp_all
  then have r: "roundDouble 200 = 200" by simp
  note c = startPlayback_closure [OF e(1) ne, of 0]
  show "isPlaying (togglePlayback 0 exampleView)" by (rule c(1))
  show "syncEnabled (togglePlayback 0 exampleView)"
    by (simp add: c(4) exampleView_sync)
  show "playInterval (togglePlayback 0 exampleView)
     = Some \<lparr>pb_maxFrames = 5, delay = 200, lastTime = 0, fires = 0\<rparr>"
    by (simp add: c(2) e(2) exampleView_positions r)
  show "pm_positions (positionMap (togglePlayback 0 exampleView)) = [0, 5, 10, 15, 20]"
    by (simp add: c(3) exampleView_positions)
  show "currentFrameIndex (togglePlayback 0 exampleView) = 0"
    by (simp add: c(5) exampleView_sync)
  show "playbackSpeed (togglePlayback 0 exampleView) = 5"
    by (simp add: c(6) e(2))
qed

lemma exampleRate7:
  "isPlaying exampleRate7" "syncEnabled exampleRate7" "playbackSpeed exampleRate7 = 7"
  "playInterval exampleRate7
     = Some \<lparr>pb_maxFrames = 5, delay = 5026338869833143 / 35184372088832,
             lastTime = 0, fires = 0\<rparr>"
proof -
  let ?v = "setPlaybackSpeed 7 0 exampleView"
  have e: "\<not> isPlaying exampleView" by (simp add: exampleView_def initialView_def)
  then have v: "?v = exampleView\<lparr>playbackSpeed := 7\<rparr>"
    by (simp add: setPlaybackSpeed_def Let_def)
  have n: "\<not> isPlaying ?v" using e by (simp add: v)
  have ne: "pm_positions (positionMap ?v) \<noteq> []"
    by (simp add: v exampleView_positions)
  note c = startPlayback_closure [OF n ne, of 0]
  show "isPlaying exampleRate7" unfolding exampleRate7_def by (rule c(1))
  show "syncEnabled exampleRate7" unfolding exampleRate7_def
    by (simp add: c(4)) (simp add: v exampleView_sync)
  show "playbackSpeed exampleRate7 = 7" unfolding exampleRate7_def
    by (simp add: c(6)) (simp add: v)
  show "playInterval exampleRate7
     = Some \<lparr>pb_maxFrames = 5, delay = 5026338869833143 / 35184372088832,
             lastTime = 0, fires = 0\<rparr>"
    unfolding exampleRate7_def
    by (simp add: c(2)) (simp add: v exampleView_positions rate7_interval)
qed

text \<open>
  C7 as stated fails in two ways. After a missed tick the accumulator keeps the remainder
  and not the elapsed time less one interval: with the interval 200 and a callback 450
  after the previous fire it is left at 50, not at 250. And the accumulator is a double:
  at the rate 7 the interval \<open>1000 / 7\<close> is rounded up, and with a callback every 100 ms,
  none of them missed, the loop has advanced 6 frames when 1000 ms have passed, where
  the floor of 1000 times 7 over 1000 is 7.
\<close>

theorem playback_remainder_and_rounding:
  "playInterval (togglePlayback 0 exampleView)
     = Some \<lparr>pb_maxFrames = 5, delay = 200, lastTime = 0, fires = 0\<rparr> \<and>
   playInterval (animationFrame 450 (togglePlayback 0 exampleView))
     = Some \<lparr>pb_maxFrames = 5, delay = 200, lastTime = 400, fires = 1\<rparr> \<and>
   (450 :: rat) - 400 \<noteq> 450 - 0 - 200 \<and>
   isPlaying exampleRate7 \<and> syncEnabled exampleRate7 \<and> playbackSpeed exampleRate7 = 7 \<and>
   map_option lastTime (playInterval exampleRate7) = Some 0 \<and>
   paced (1000 / 7) 0 [100, 200, 300, 400, 500, 600, 700, 800, 900, 1000] \<and>
   map_option fires
     (playInterval (runFrames [100, 200, 300, 400, 500, 600, 700, 800, 900, 1000]
        exampleRate7)) = Some 6 \<and>
   nat \<lfloor>(1000 - 0) * of_int (playbackSpeed exampleRate7) / (1000 :: rat)\<rfloor> = 7"
proof -
  let ?pb = "\<lparr>pb_maxFrames = 5, delay = 200, lastTime = 0, fires = 0\<rparr>"
  have "\<lfloor>(9 :: rat) / 4\<rfloor> = 2"
    by (rule floor_unique) simp_all
  then have r: "js_rem 450 200 = 50"
    by (simp add: js_rem_def)
  have "closureStep ?pb 450
      = (if delay ?pb \<le> 450 - lastTime ?pb
         then ?pb\<lparr>lastTime := 450 - js_rem (450 - lastTime ?pb) (delay ?pb),
                  fires := Suc (fires ?pb)\<rparr>
         else ?pb)"
    by (rule closureStep_whole) simp_all
  then have c: "closureStep ?pb 450
      = \<lparr>pb_maxFrames = 5, delay = 200, lastTime = 400, fires = 1\<rparr>"
    by (simp add: r)
  have a: "playInterval (animationFrame 450 (togglePlayback 0 exampleView))
     = Some \<lparr>pb_maxFrames = 5, delay = 200, lastTime = 400, fires = 1\<rparr>"
    using framePlayback_synced(1) [OF examplePlaying(1,2), of ?pb 450]
    by (simp add: animationFrame_def examplePlaying(3) c)
  have b: "map_option fires
     (playInterval (runFrames [100, 200, 300, 400, 500, 600, 700, 800, 900, 1000]
        exampleRate7)) = Some 6"
    unfolding runFrames_closure [OF exampleRate7(1,2,4)] rate7_closure by simp
  from a b show ?thesis
    by (simp add: examplePlaying(3) exampleRate7)
qed

theorem playback_pacing_witness:
  "isPlaying (togglePlayback 0 exampleView) \<and> syncEnabled (togglePlayback 0 exampleView) \<and>
   playbackSpeed (togglePlayback 0 exampleView) = 5 \<and> (5 :: int) dvd 1000 \<and>
   playInterval (togglePlayback 0 exampleView)
     = Some \<lparr>pb_maxFrames = 5, delay = 200, lastTime = 0, fires = 0\<rparr> \<and>
   roundDouble (1000 / 5) = 200 \<and>
   pm_positions (positionMap (togglePlayback 0 exampleView)) = [0, 5, 10, 15, 20] \<and>
   currentFrameIndex (togglePlayback 0 exampleView) = 0 \<and>
   wholeTimes [100, 200, 300, 450, 600] \<and>
   paced 200 0 [100, 200, 300, 450, 600] \<and>
   (\<exists>pb'. playInterval (runFrames [100, 200, 300, 450, 600] (togglePlayback 0 exampleView))
            = Some pb' \<and> fires pb' = 3 \<and>
          currentFrameIndex (runFrames [100, 200, 300, 450, 600] (togglePlayback 0 exampleView))
            = 3) \<and>
   (\<exists>pb1. playInterval (animationFrame 250 (togglePlayback 0 exampleView)) = Some pb1 \<and>
          fires pb1 = 1 \<and> 250 - lastTime pb1 = 50 \<and>
          currentFrameIndex (animationFrame 250 (togglePlayback 0 exampleView)) = 1)"
proof -
  let ?p = "togglePlayback 0 exampleView"
  let ?pb = "\<lparr>pb_maxFrames = 5, delay = 200, lastTime = 0, fires = 0\<rparr>"
  have "roundDouble (of_int 200) = of_int 200"
    by (rule roundDouble_int) simp_all
  then have r200: "roundDouble 200 = 200" by simp
  then have r: "roundDouble (1000 / 5) = 200" by simp
  have w: "wholeTimes [100, 200, 300, 450, 600]" by simp
  have pc: "paced (delay ?pb) (lastTime ?pb) [100, 200, 300, 450, 600]" by simp
  have h: "0 < playbackSpeed ?p" "playbackSpeed ?p dvd 1000"
    "delay ?pb = roundDouble (1000 / of_int (playbackSpeed ?p))"
    "fires ?pb = 0"
    "pb_maxFrames ?pb = int (length (pm_positions (positionMap ?p)))"
    "0 \<le> currentFrameIndex ?p" "currentFrameIndex ?p < pb_maxFrames ?pb"
    "lastTime ?pb \<in> \<int>" "0 \<le> lastTime ?pb"
    by (simp_all add: examplePlaying r200)
  note t = playback_pacing [OF examplePlaying(1,2,3) h w pc]
  from t have a: "\<exists>pb'. playInterval (runFrames [100, 200, 300, 450, 600] ?p) = Some pb' \<and>
      fires pb' = 3 \<and> currentFrameIndex (runFrames [100, 200, 300, 450, 600] ?p) = 3"
    by (auto simp add: examplePlaying(5,6))
  have tz: "(250 :: rat) \<in> \<int>" and t53: "(250 :: rat) < 2 ^ 53"
    and ge: "delay ?pb \<le> 250 - lastTime ?pb" by simp_all
  from t [THEN conjunct2, THEN conjunct2, rule_format, OF tz t53 ge]
  have b: "\<exists>pb1. playInterval (animationFrame 250 ?p) = Some pb1 \<and>
          fires pb1 = 1 \<and> 250 - lastTime pb1 = 50 \<and>
          currentFrameIndex (animationFrame 250 ?p) = 1"
    by (auto simp add: examplePlaying(5))
  from a b w show ?thesis using examplePlaying by (simp add: r200)
qed

end
